theory Spec2Isabelle
  imports Complex_Main
begin

section \<open>JavaScript numbers\<close>

text \<open>
  Every number of \<^verbatim>\<open>main.js\<close> is an IEEE 754 binary64 value, and \<^verbatim>\<open>+\<close> and \<^verbatim>\<open>*\<close>
  round their exact result to the nearest binary64 value, ties to even. A finite binary64
  value is modelled by the rational it denotes (the two zeros are one value, as they are
  for \<^verbatim>\<open>===\<close>). The program only adds the literals 0.01, 0.05 and 0.075 to a number and
  multiplies the scroll offset by -0.0002. These operations take finite values to finite
  values (\<open>binary64_fadd\<close> and \<open>binary64_fmul\<close> below), so infinities and NaN are not
  part of the model.
\<close>

type_synonym number = rat

text \<open>For \<open>1 \<le> x\<close>, the largest \<open>k\<close> with \<open>2 ^ k \<le> x\<close>.\<close>

function ilog2_ge1 :: "rat \<Rightarrow> nat" where
  "ilog2_ge1 x = (if x < 2 then 0 else Suc (ilog2_ge1 (x / 2)))"
  by pat_completeness auto
termination
proof (relation "measure (\<lambda>x. nat \<lfloor>x\<rfloor>)")
  show "wf (measure (\<lambda>x::rat. nat \<lfloor>x\<rfloor>))" by simp
next
  fix x :: rat
  assume "\<not> x < 2"
  then have "x / 2 \<le> x - 1" by simp
  then have "\<lfloor>x / 2\<rfloor> \<le> \<lfloor>x - 1\<rfloor>" by (rule floor_mono)
  moreover have "2 \<le> \<lfloor>x\<rfloor>" using \<open>\<not> x < 2\<close> by (simp add: le_floor_iff)
  ultimately show "(x / 2, x) \<in> measure (\<lambda>x. nat \<lfloor>x\<rfloor>)" by simp
qed

text \<open>For \<open>0 < x < 1\<close>, the least \<open>k\<close> with \<open>1 \<le> 2 ^ k * x\<close>.\<close>

function ilog2_lt1 :: "rat \<Rightarrow> nat" where
  "ilog2_lt1 x = (if x \<le> 0 \<or> 1 \<le> x then 0 else Suc (ilog2_lt1 (2 * x)))"
  by pat_completeness auto
termination
proof (relation "measure (\<lambda>x. nat \<lfloor>1 / x\<rfloor>)")
  show "wf (measure (\<lambda>x::rat. nat \<lfloor>1 / x\<rfloor>))" by simp
next
  fix x :: rat
  assume "\<not> (x \<le> 0 \<or> 1 \<le> x)"
  then have x: "0 < x" "x < 1" by auto
  then have y: "1 < 1 / x" by simp
  have h: "1 / (2 * x) = (1 / x) / 2" by simp
  have one: "1 \<le> \<lfloor>1 / x\<rfloor>" using y by (simp add: le_floor_iff)
  have "\<lfloor>(1 / x) / 2\<rfloor> < \<lfloor>1 / x\<rfloor>"
  proof (cases "2 \<le> 1 / x")
    case True
    then have "(1 / x) / 2 \<le> 1 / x - 1" by simp
    then have "\<lfloor>(1 / x) / 2\<rfloor> \<le> \<lfloor>1 / x - 1\<rfloor>" by (rule floor_mono)
    then show ?thesis by simp
  next
    case False
    then have "(1 / x) / 2 < 1" by simp
    moreover have "0 \<le> (1 / x) / 2" using x by simp
    ultimately have "\<lfloor>(1 / x) / 2\<rfloor> = 0" by (simp add: floor_eq_iff)
    then show ?thesis using one by simp
  qed
  with one show "(2 * x, x) \<in> measure (\<lambda>x. nat \<lfloor>1 / x\<rfloor>)"
    by (simp add: h)
qed

text \<open>The binary exponent \<open>e\<close> of a non-zero \<open>x\<close>: \<open>2 ^ e \<le> \<bar>x\<bar> < 2 ^ (e + 1)\<close>.\<close>

definition exponent :: "rat \<Rightarrow> int" where
  "exponent x = (if 1 \<le> \<bar>x\<bar> then int (ilog2_ge1 \<bar>x\<bar>) else - int (ilog2_lt1 \<bar>x\<bar>))"

definition pow2 :: "int \<Rightarrow> rat" where
  "pow2 e = (if 0 \<le> e then 2 ^ nat e else 1 / 2 ^ nat (- e))"

text \<open>Rounding to the nearest integer, a tie to the even one.\<close>

definition rne :: "rat \<Rightarrow> int" where
  "rne y = (let f = \<lfloor>y\<rfloor>; d = y - of_int f in
     if d < 1 / 2 then f else if 1 / 2 < d then f + 1 else if even f then f else f + 1)"

text \<open>
  Rounding to binary64: 53 significant bits, so the unit in the last place of \<open>x\<close> is
  \<open>2 ^ (exponent x - 52)\<close>, and not below \<open>2 ^ - 1074\<close>, the spacing of the subnormal
  numbers.
\<close>

definition fl :: "rat \<Rightarrow> number" where
  "fl x = (let q = max (exponent x - 52) (- 1074) in of_int (rne (x / pow2 q)) * pow2 q)"

text \<open>
  The finite binary64 values: the rationals that rounding leaves as they are, up to the
  largest of them.
\<close>

definition max_binary64 :: rat where
  "max_binary64 = (2 ^ 53 - 1) * 2 ^ 971"

definition binary64 :: "rat \<Rightarrow> bool" where
  "binary64 x \<longleftrightarrow> fl x = x \<and> \<bar>x\<bar> \<le> max_binary64"

text \<open>The operators \<^verbatim>\<open>+\<close> and \<^verbatim>\<open>*\<close>; a decimal literal \<^verbatim>\<open>0.01\<close> denotes \<open>fl (1 / 100)\<close>.\<close>

definition fadd :: "number \<Rightarrow> number \<Rightarrow> number" where
  "fadd a b = fl (a + b)"

definition fmul :: "number \<Rightarrow> number \<Rightarrow> number" where
  "fmul a b = fl (a * b)"

text \<open>What \<open>n\<close> statements \<^verbatim>\<open>x += c\<close> make of \<open>x = 0\<close>.\<close>

definition repeated_sum :: "number \<Rightarrow> nat \<Rightarrow> number" where
  "repeated_sum c n = ((\<lambda>x. fadd x c) ^^ n) 0"

section \<open>The objects of the scene\<close>

text \<open>
  A \<^verbatim>\<open>THREE.Vector3\<close> has three coordinates. Its \<^verbatim>\<open>setZ\<close> is a method of the prototype
  unless the object has an own property of that name: line 123 of \<^verbatim>\<open>main.js\<close>,
  \<^verbatim>\<open>moon.position.setZ = (30)\<close>, creates one.
\<close>

datatype property = Prototype_method | Own_value number

record vector3 =
  vec_x :: number
  vec_y :: number
  vec_z :: number
  setZ_property :: property

record euler =
  rot_x :: number
  rot_y :: number
  rot_z :: number

definition new_Vector3 :: vector3 where
  "new_Vector3 = \<lparr>vec_x = 0, vec_y = 0, vec_z = 0, setZ_property = Prototype_method\<rparr>"

definition new_Euler :: euler where
  "new_Euler = \<lparr>rot_x = 0, rot_y = 0, rot_z = 0\<rparr>"

text \<open>\<^verbatim>\<open>v.setX(a)\<close>: the method of the prototype.\<close>

definition setX :: "vector3 \<Rightarrow> number \<Rightarrow> vector3" where
  "setX v a = v\<lparr>vec_x := a\<rparr>"

text \<open>
  \<^verbatim>\<open>v.setZ(a)\<close>: a call of whatever the property holds; a number is not callable
  (a TypeError, \<open>None\<close>).
\<close>

definition call_setZ :: "vector3 \<Rightarrow> number \<Rightarrow> vector3 option" where
  "call_setZ v a =
     (case setZ_property v of
        Prototype_method \<Rightarrow> Some (v\<lparr>vec_z := a\<rparr>)
      | Own_value _ \<Rightarrow> None)"

text \<open>\<^verbatim>\<open>v.setZ = a\<close>: an assignment to the property.\<close>

definition assign_setZ :: "vector3 \<Rightarrow> number \<Rightarrow> vector3" where
  "assign_setZ v a = v\<lparr>setZ_property := Own_value a\<rparr>"

text \<open>The part of the scene graph that the program touches after it has built it.\<close>

record scene =
  torus_rotation :: euler
  moon_rotation :: euler
  moon_position :: vector3

section \<open>The host and the state\<close>

text \<open>
  \<^verbatim>\<open>requestAnimationFrame\<close>, \<^verbatim>\<open>OrbitControls\<close> and the renderer are not code of this
  repository. What is inside them (the state of the controls, the pointer input they have
  seen, the drawing context) is a value of a type \<open>'w\<close> the program never looks into.
  \<^verbatim>\<open>new OrbitControls(camera, renderer.domElement)\<close> (line 85) hands the camera to the
  controls, and the constructor may already write its position; \<^verbatim>\<open>controls.update()\<close>
  reads and writes the state of the controls and the position of that camera;
  \<^verbatim>\<open>renderer.render(scene, camera)\<close> reads the scene and the camera. Each call made to the
  host is recorded, in order.
\<close>

datatype call =
  Call_requestAnimationFrame
  | Call_new_OrbitControls
  | Call_controls_update
  | Call_render scene vector3

record 'w host =
  new_OrbitControls :: "'w \<Rightarrow> vector3 \<Rightarrow> 'w \<times> vector3"
  controls_update :: "'w \<Rightarrow> vector3 \<Rightarrow> 'w \<times> vector3"
  renderer_render :: "'w \<Rightarrow> scene \<Rightarrow> vector3 \<Rightarrow> 'w"

record 'w state =
  the_scene :: scene
  camera_position :: vector3
  external :: 'w
  frame_requests :: nat
  calls :: "call list"

section \<open>Start-up (lines 7 to 143)\<close>

text \<open>
  Line 16 calls \<^verbatim>\<open>camera.position.setZ(30)\<close>; line 19 renders once, before the torus
  and the moon are made (the record shows them as they are made, at the origin and not
  rotated); line 85 builds the controls on the camera; lines 123 and 124 are
  \<^verbatim>\<open>moon.position.setZ = (30)\<close> and \<^verbatim>\<open>moon.position.setX(2)\<close>.
\<close>

definition build_scene :: "'w host \<Rightarrow> 'w \<Rightarrow> 'w state option" where
  "build_scene h w =
     (case call_setZ new_Vector3 30 of
        None \<Rightarrow> None
      | Some cam \<Rightarrow>
          let sc0 = \<lparr>torus_rotation = new_Euler, moon_rotation = new_Euler,
                     moon_position = new_Vector3\<rparr>;
              w1 = renderer_render h w sc0 cam;
              wp = new_OrbitControls h w1 cam;
              moon1 = assign_setZ new_Vector3 30;
              moon2 = setX moon1 2
          in Some \<lparr>the_scene = sc0\<lparr>moon_position := moon2\<rparr>, camera_position = snd wp,
                    external = fst wp, frame_requests = 0,
                    calls = [Call_render sc0 cam, Call_new_OrbitControls]\<rparr>)"

section \<open>The scroll handler (lines 129 to 141)\<close>

text \<open>
  \<open>t\<close> is \<^verbatim>\<open>document.body.getBoundingClientRect().top\<close>, read by the handler when the
  event arrives.
\<close>

definition moveCamera :: "number \<Rightarrow> 'w state \<Rightarrow> 'w state" where
  "moveCamera t s =
     (let m = moon_rotation (the_scene s);
          m1 = m\<lparr>rot_x := fadd (rot_x m) (fl (5 / 100))\<rparr>;
          m2 = m1\<lparr>rot_y := fadd (rot_y m1) (fl (75 / 1000))\<rparr>;
          m3 = m2\<lparr>rot_z := fadd (rot_z m2) (fl (5 / 100))\<rparr>
      in s\<lparr>the_scene := (the_scene s)\<lparr>moon_rotation := m3\<rparr>,
            camera_position := (camera_position s)\<lparr>vec_y := fmul t (- fl (2 / 10000))\<rparr>\<rparr>)"

section \<open>The update step (lines 147 to 167)\<close>

text \<open>
  The six statements of \<^verbatim>\<open>animate\<close>, in the order of the source. A statement either
  completes or throws, and a throw ends the invocation with the state as it is then.
\<close>

datatype stmt =
  Request_frame
  | Torus_x
  | Torus_y
  | Torus_z
  | Controls_update
  | Render

datatype completion = Normal | Throw

definition animate_body :: "stmt list" where
  "animate_body = [Request_frame, Torus_x, Torus_y, Torus_z, Controls_update, Render]"

definition set_torus :: "(euler \<Rightarrow> euler) \<Rightarrow> 'w state \<Rightarrow> 'w state" where
  "set_torus f s = s\<lparr>the_scene := (the_scene s)\<lparr>torus_rotation := f (torus_rotation (the_scene s))\<rparr>\<rparr>"

fun exec :: "'w host \<Rightarrow> stmt \<Rightarrow> 'w state \<Rightarrow> 'w state" where
  "exec h Request_frame s =
     s\<lparr>frame_requests := Suc (frame_requests s),
       calls := calls s @ [Call_requestAnimationFrame]\<rparr>"
| "exec h Torus_x s = set_torus (\<lambda>r. r\<lparr>rot_x := fadd (rot_x r) (fl (1 / 100))\<rparr>) s"
| "exec h Torus_y s = set_torus (\<lambda>r. r\<lparr>rot_y := fadd (rot_y r) (fl (1 / 100))\<rparr>) s"
| "exec h Torus_z s = set_torus (\<lambda>r. r\<lparr>rot_z := fadd (rot_z r) (fl (1 / 100))\<rparr>) s"
| "exec h Controls_update s =
     (case controls_update h (external s) (camera_position s) of
        (w, p) \<Rightarrow> s\<lparr>external := w, camera_position := p,
                     calls := calls s @ [Call_controls_update]\<rparr>)"
| "exec h Render s =
     s\<lparr>external := renderer_render h (external s) (the_scene s) (camera_position s),
       calls := calls s @ [Call_render (the_scene s) (camera_position s)]\<rparr>"

text \<open>
  Nothing in \<^verbatim>\<open>animate\<close> catches an exception. \<open>faulty\<close> says which statements throw in
  this invocation; a statement that throws has no effect.
\<close>

fun run_stmts :: "(stmt \<Rightarrow> bool) \<Rightarrow> 'w host \<Rightarrow> stmt list \<Rightarrow> 'w state \<Rightarrow> 'w state \<times> completion" where
  "run_stmts faulty h [] s = (s, Normal)"
| "run_stmts faulty h (st # sts) s =
     (if faulty st then (s, Throw) else run_stmts faulty h sts (exec h st s))"

text \<open>The host and the library are trusted not to fail: no statement throws.\<close>

definition animate :: "'w host \<Rightarrow> 'w state \<Rightarrow> 'w state \<times> completion" where
  "animate h s = run_stmts (\<lambda>st. False) h animate_body s"

text \<open>\<open>n\<close> invocations of the update step, one after the other.\<close>

primrec frames :: "'w host \<Rightarrow> nat \<Rightarrow> 'w state \<Rightarrow> 'w state" where
  "frames h 0 s = s"
| "frames h (Suc n) s = frames h n (fst (animate h s))"

text \<open>Line 170: the program ends with a first call of \<^verbatim>\<open>animate\<close>.\<close>

definition startup :: "'w host \<Rightarrow> 'w \<Rightarrow> 'w state option" where
  "startup h w = map_option (\<lambda>s. fst (animate h s)) (build_scene h w)"

section \<open>Events\<close>

text \<open>
  The host runs one callback at a time: an animation frame runs a requested call of
  \<^verbatim>\<open>animate\<close>, if there is one, and a scroll event runs the handler of line 143 with the
  offset of that moment.
\<close>

datatype event = Frame | Scroll number

fun step :: "'w host \<Rightarrow> 'w state \<Rightarrow> event \<Rightarrow> 'w state" where
  "step h s Frame =
     (if frame_requests s = 0 then s
      else fst (animate h (s\<lparr>frame_requests := frame_requests s - 1\<rparr>)))"
| "step h s (Scroll t) = moveCamera t s"

definition run :: "'w host \<Rightarrow> event list \<Rightarrow> 'w state \<Rightarrow> 'w state" where
  "run h evs s = foldl (step h) s evs"

fun is_Scroll :: "event \<Rightarrow> bool" where
  "is_Scroll Frame = False"
| "is_Scroll (Scroll t) = True"

fun is_Frame :: "event \<Rightarrow> bool" where
  "is_Frame Frame = True"
| "is_Frame (Scroll t) = False"

section \<open>Two hosts\<close>

text \<open>Controls that leave the camera where it is: no pointer input, no damping.\<close>

definition idle_host :: "unit host" where
  "idle_host =
     \<lparr>new_OrbitControls = (\<lambda>w p. (w, p)), controls_update = (\<lambda>w p. (w, p)),
      renderer_render = (\<lambda>w sc p. w)\<rparr>"

text \<open>
  Controls that lift the camera by one unit at each update, the one their constructor runs
  included: the user drags it.
\<close>

definition dragging_host :: "unit host" where
  "dragging_host =
     \<lparr>new_OrbitControls = (\<lambda>w p. (w, p\<lparr>vec_y := fadd (vec_y p) 1\<rparr>)),
      controls_update = (\<lambda>w p. (w, p\<lparr>vec_y := fadd (vec_y p) 1\<rparr>)),
      renderer_render = (\<lambda>w sc p. w)\<rparr>"

text \<open>The state in which line 170 finds the program, on the idle host.\<close>

definition built :: "unit state" where
  "built =
     \<lparr>the_scene = \<lparr>torus_rotation = new_Euler, moon_rotation = new_Euler,
          moon_position = \<lparr>vec_x = 2, vec_y = 0, vec_z = 0, setZ_property = Own_value 30\<rparr>\<rparr>,
      camera_position = \<lparr>vec_x = 0, vec_y = 0, vec_z = 30, setZ_property = Prototype_method\<rparr>,
      external = (), frame_requests = 0,
      calls = [Call_render \<lparr>torus_rotation = new_Euler, moon_rotation = new_Euler,
                 moon_position = new_Vector3\<rparr>
               \<lparr>vec_x = 0, vec_y = 0, vec_z = 30, setZ_property = Prototype_method\<rparr>,
               Call_new_OrbitControls]\<rparr>"

section \<open>Rounding\<close>

declare ilog2_ge1.simps [simp del]

declare ilog2_lt1.simps [simp del]

lemma pow2_powi: "pow2 e = 2 powi e"
  by (simp add: pow2_def power_int_def inverse_eq_divide power_one_over)

lemma pow2_pos: "0 < pow2 e"
  by (simp add: pow2_powi)

lemma pow2_add: "pow2 (a + b) = pow2 a * pow2 b"
  by (simp add: pow2_powi power_int_add)

lemma pow2_mono: "a \<le> b \<Longrightarrow> pow2 a \<le> pow2 b"
  by (simp add: pow2_powi power_int_increasing)

lemma pow2_strict_mono: "a < b \<Longrightarrow> pow2 a < pow2 b"
  by (simp add: pow2_powi power_int_strict_increasing)

lemma pow2_less_iff: "pow2 a < pow2 b \<longleftrightarrow> a < b"
  using pow2_mono [of b a] pow2_strict_mono [of a b] by (auto simp: not_le [symmetric])

lemma pow2_nat: "pow2 (int n) = 2 ^ n"
  by (simp add: pow2_def)

lemma pow2_neg_nat: "pow2 (- int n) = 1 / 2 ^ n"
  by (simp add: pow2_powi power_int_minus inverse_eq_divide)

lemma ilog2_ge1_spec: "1 \<le> x \<Longrightarrow> 2 ^ ilog2_ge1 x \<le> x \<and> x < 2 ^ Suc (ilog2_ge1 x)"
proof (induction x rule: ilog2_ge1.induct)
  case (1 x)
  show ?case
  proof (cases "x < 2")
    case True
    then have "ilog2_ge1 x = 0" by (subst ilog2_ge1.simps) simp
    with "1.prems" True show ?thesis by simp
  next
    case False
    then have "1 \<le> x / 2" by simp
    with "1.IH" False have "2 ^ ilog2_ge1 (x / 2) \<le> x / 2 \<and> x / 2 < 2 ^ Suc (ilog2_ge1 (x / 2))"
      by blast
    moreover have "ilog2_ge1 x = Suc (ilog2_ge1 (x / 2))"
      using False by (subst ilog2_ge1.simps) simp
    ultimately show ?thesis by simp
  qed
qed

lemma ilog2_lt1_spec:
  "0 < x \<Longrightarrow> x < 1 \<Longrightarrow> 1 \<le> 2 ^ ilog2_lt1 x * x \<and> 2 ^ ilog2_lt1 x * x < 2"
proof (induction x rule: ilog2_lt1.induct)
  case (1 x)
  from "1.prems" have nb: "\<not> (x \<le> 0 \<or> 1 \<le> x)" by simp
  then have unf: "ilog2_lt1 x = Suc (ilog2_lt1 (2 * x))" by (subst ilog2_lt1.simps) simp
  show ?case
  proof (cases "2 * x < 1")
    case True
    with "1.IH" nb "1.prems" have "1 \<le> 2 ^ ilog2_lt1 (2 * x) * (2 * x) \<and> 2 ^ ilog2_lt1 (2 * x) * (2 * x) < 2"
      by simp
    then show ?thesis by (simp add: unf mult_ac)
  next
    case False
    then have "ilog2_lt1 (2 * x) = 0" by (subst ilog2_lt1.simps) simp
    with False "1.prems" show ?thesis by (simp add: unf)
  qed
qed

lemma exponent_spec:
  assumes "x \<noteq> 0"
  shows "pow2 (exponent x) \<le> \<bar>x\<bar> \<and> \<bar>x\<bar> < pow2 (exponent x + 1)"
proof (cases "1 \<le> \<bar>x\<bar>")
  case True
  then have e: "exponent x = int (ilog2_ge1 \<bar>x\<bar>)" by (simp add: exponent_def)
  have "exponent x + 1 = int (Suc (ilog2_ge1 \<bar>x\<bar>))" by (simp add: e)
  then show ?thesis using ilog2_ge1_spec [OF True] by (simp only: e pow2_nat)
next
  case False
  then have lt: "\<bar>x\<bar> < 1" and pos: "0 < \<bar>x\<bar>" using assms by auto
  define k where "k = ilog2_lt1 \<bar>x\<bar>"
  have e: "exponent x = - int k" using False by (simp add: exponent_def k_def)
  have k: "1 \<le> 2 ^ k * \<bar>x\<bar>" "2 ^ k * \<bar>x\<bar> < 2"
    using ilog2_lt1_spec [OF pos lt] by (simp_all add: k_def)
  have kpos: "0 < k" using k(1) lt by (cases k) simp_all
  have a: "pow2 (- int k) \<le> \<bar>x\<bar>" using k(1) by (simp add: pow2_neg_nat field_simps)
  have "exponent x + 1 = - int (k - 1)" using kpos by (simp add: e)
  then have pw: "pow2 (exponent x + 1) = 1 / 2 ^ (k - 1)" by (simp only: pow2_neg_nat)
  have "(2::rat) ^ k = 2 * 2 ^ (k - 1)" using kpos by (cases k) simp_all
  with k(2) have "2 ^ (k - 1) * \<bar>x\<bar> < 1" by simp
  then have "\<bar>x\<bar> < 1 / 2 ^ (k - 1)" by (simp add: field_simps)
  then have b: "\<bar>x\<bar> < pow2 (exponent x + 1)" by (simp only: pw)
  show ?thesis using a b by (simp add: e)
qed

lemma exponent_less: "x \<noteq> 0 \<Longrightarrow> \<bar>x\<bar> < pow2 k \<Longrightarrow> exponent x < k"
  using exponent_spec [of x] pow2_less_iff [of "exponent x" k] by linarith

lemma exponent_ge: "pow2 k \<le> \<bar>x\<bar> \<Longrightarrow> k \<le> exponent x"
proof -
  assume a: "pow2 k \<le> \<bar>x\<bar>"
  then have "x \<noteq> 0" using pow2_pos [of k] by auto
  then have "\<bar>x\<bar> < pow2 (exponent x + 1)" using exponent_spec by blast
  with a have "pow2 k < pow2 (exponent x + 1)" by linarith
  then show ?thesis by (simp add: pow2_less_iff)
qed

lemma rne_error: "\<bar>of_int (rne y) - y\<bar> \<le> 1 / 2"
proof -
  have "of_int \<lfloor>y\<rfloor> \<le> y" "y < of_int \<lfloor>y\<rfloor> + 1" by linarith+
  then show ?thesis by (auto simp: rne_def Let_def)
qed

lemma rne_of_int: "rne (of_int k) = k"
  by (simp add: rne_def)

lemma rne_mono: "y \<le> y' \<Longrightarrow> rne y \<le> rne y'"
proof -
  assume le: "y \<le> y'"
  have f: "\<lfloor>y\<rfloor> \<le> \<lfloor>y'\<rfloor>" using le by (rule floor_mono)
  have b: "\<lfloor>y\<rfloor> \<le> rne y" "rne y \<le> \<lfloor>y\<rfloor> + 1" "\<lfloor>y'\<rfloor> \<le> rne y'"
    by (simp_all add: rne_def Let_def)
  show ?thesis
  proof (cases "\<lfloor>y\<rfloor> = \<lfloor>y'\<rfloor>")
    case True
    with le have "y - of_int \<lfloor>y\<rfloor> \<le> y' - of_int \<lfloor>y'\<rfloor>" by simp
    then show ?thesis using True by (auto simp: rne_def Let_def)
  next
    case False
    with f have "\<lfloor>y\<rfloor> + 1 \<le> \<lfloor>y'\<rfloor>" by simp
    with b show ?thesis by linarith
  qed
qed

lemma fl_error: "\<bar>fl x - x\<bar> \<le> pow2 (max (exponent x - 52) (- 1074)) / 2"
proof -
  define q where "q = max (exponent x - 52) (- 1074)"
  have p: "0 < pow2 q" by (rule pow2_pos)
  have "fl x - x = (of_int (rne (x / pow2 q)) - x / pow2 q) * pow2 q"
    using p by (simp add: fl_def q_def [symmetric] field_simps)
  then have "\<bar>fl x - x\<bar> = \<bar>of_int (rne (x / pow2 q)) - x / pow2 q\<bar> * pow2 q"
    using p by (simp add: abs_mult)
  also have "\<dots> \<le> 1 / 2 * pow2 q"
    using rne_error [of "x / pow2 q"] p by (intro mult_right_mono) simp_all
  finally show ?thesis by (simp add: q_def)
qed

lemma fl_0: "fl 0 = 0"
  by (simp add: fl_def rne_def)

lemma fl_error_below:
  assumes "\<bar>x\<bar> < pow2 k" and "- 1021 \<le> k"
  shows "\<bar>fl x - x\<bar> \<le> pow2 (k - 54)"
proof (cases "x = 0")
  case True
  then show ?thesis using pow2_pos [of "k - 54"] by (simp add: fl_0)
next
  case False
  then have "exponent x < k" using assms(1) by (rule exponent_less)
  then have "max (exponent x - 52) (- 1074) \<le> k - 53" using assms(2) by simp
  then have "pow2 (max (exponent x - 52) (- 1074)) \<le> pow2 (k - 53)" by (rule pow2_mono)
  moreover have "pow2 (k - 53) = 2 * pow2 (k - 54)"
    using pow2_add [of 1 "k - 54"] by (simp add: pow2_def)
  ultimately show ?thesis using fl_error [of x] by simp
qed

lemma fl_ge_pow2:
  assumes "pow2 k \<le> x" and "- 1022 \<le> k"
  shows "pow2 k \<le> fl x"
proof -
  have xpos: "0 < x" using assms(1) pow2_pos [of k] by linarith
  define e where "e = exponent x"
  define q where "q = max (e - 52) (- 1074)"
  have ke: "k \<le> e" using assms(1) xpos exponent_ge [of k x] by (simp add: e_def)
  then have q: "q = e - 52" using assms(2) by (simp add: q_def)
  have p: "0 < pow2 q" by (rule pow2_pos)
  have "pow2 e \<le> x" using exponent_spec [of x] xpos by (simp add: e_def)
  moreover have "pow2 e = pow2 52 * pow2 q" using pow2_add [of 52 q] by (simp add: q)
  ultimately have "pow2 52 \<le> x / pow2 q" using p by (simp add: field_simps)
  moreover have "pow2 52 = of_int (2 ^ 52)" by (simp add: pow2_def)
  ultimately have "rne (of_int (2 ^ 52)) \<le> rne (x / pow2 q)" by (intro rne_mono) simp
  then have "(2 ^ 52 :: int) \<le> rne (x / pow2 q)" by (simp only: rne_of_int)
  then have "(of_int (2 ^ 52) :: rat) \<le> of_int (rne (x / pow2 q))" by (simp only: of_int_le_iff)
  then have "of_int (2 ^ 52) * pow2 q \<le> of_int (rne (x / pow2 q)) * pow2 q"
    using p by (intro mult_right_mono) simp_all
  moreover have "fl x = of_int (rne (x / pow2 q)) * pow2 q"
    by (simp add: fl_def q_def e_def Let_def)
  moreover have "of_int (2 ^ 52) * pow2 q = pow2 e" using \<open>pow2 e = pow2 52 * pow2 q\<close> by (simp add: pow2_def)
  ultimately have "pow2 e \<le> fl x" by simp
  with pow2_mono [OF ke] show ?thesis by linarith
qed

lemma floor_minus_cases:
  "\<lfloor>- y\<rfloor> = (if y = of_int \<lfloor>y\<rfloor> then - \<lfloor>y\<rfloor> else - \<lfloor>y\<rfloor> - 1)" for y :: rat
proof (cases "y = of_int \<lfloor>y\<rfloor>")
  case True
  then have "- y = of_int (- \<lfloor>y\<rfloor>)" by simp
  then have "\<lfloor>- y\<rfloor> = - \<lfloor>y\<rfloor>" by (metis floor_of_int)
  with True show ?thesis by simp
next
  case False
  have "of_int \<lfloor>y\<rfloor> \<le> y" "y < of_int \<lfloor>y\<rfloor> + 1" by linarith+
  with False have "of_int \<lfloor>y\<rfloor> < y" by linarith
  then have "\<lfloor>- y\<rfloor> = - \<lfloor>y\<rfloor> - 1"
    using \<open>y < of_int \<lfloor>y\<rfloor> + 1\<close> by (intro floor_unique) simp_all
  with False show ?thesis by simp
qed

lemma rne_minus: "rne (- y) = - rne y"
proof (cases "y = of_int \<lfloor>y\<rfloor>")
  case True
  then obtain k where "y = of_int k" ..
  then have "- y = of_int (- k)" by simp
  then show ?thesis using \<open>y = of_int k\<close> by (simp only: rne_of_int)
next
  case False
  have b: "of_int \<lfloor>y\<rfloor> \<le> y" "y < of_int \<lfloor>y\<rfloor> + 1" by linarith+
  have f: "\<lfloor>- y\<rfloor> = - \<lfloor>y\<rfloor> - 1" using False by (simp add: floor_minus_cases)
  have par: "even (- \<lfloor>y\<rfloor> - 1) \<longleftrightarrow> odd \<lfloor>y\<rfloor>" by simp
  show ?thesis
    using False b unfolding rne_def Let_def f par
    by (auto simp: algebra_simps)
qed

lemma exponent_minus: "exponent (- x) = exponent x"
  by (simp add: exponent_def)

lemma fl_minus: "fl (- x) = - fl x"
proof -
  have "- x / pow2 q = - (x / pow2 q)" for q by simp
  then show ?thesis by (simp add: fl_def exponent_minus rne_minus Let_def)
qed

lemma fl_nonneg: "0 \<le> x \<Longrightarrow> 0 \<le> fl x"
proof -
  assume x: "0 \<le> x"
  define q where "q = max (exponent x - 52) (- 1074)"
  have p: "0 < pow2 q" by (rule pow2_pos)
  then have "0 \<le> x / pow2 q" using x by simp
  then have "rne 0 \<le> rne (x / pow2 q)" by (rule rne_mono)
  moreover have "rne 0 = 0" using rne_of_int [of 0] by simp
  ultimately have "0 \<le> rne (x / pow2 q)" by simp
  then show ?thesis using p by (simp add: fl_def q_def Let_def)
qed

lemma exponent_mono: "0 < x \<Longrightarrow> x \<le> y \<Longrightarrow> exponent x \<le> exponent y"
proof -
  assume x: "0 < x" and le: "x \<le> y"
  then have "pow2 (exponent x) \<le> \<bar>x\<bar>" using exponent_spec [of x] by simp
  with x le have "pow2 (exponent x) \<le> \<bar>y\<bar>" by simp
  then show ?thesis by (rule exponent_ge)
qed

lemma fl_le_pow2:
  assumes "0 < x"
  shows "fl x \<le> pow2 (max (exponent x - 52) (- 1074) + 53)"
proof -
  define q where "q = max (exponent x - 52) (- 1074)"
  have p: "0 < pow2 q" by (rule pow2_pos)
  have "x < pow2 (exponent x + 1)" using exponent_spec [of x] assms by simp
  also have "\<dots> \<le> pow2 (q + 53)" by (rule pow2_mono) (simp add: q_def)
  also have "\<dots> = pow2 53 * pow2 q" using pow2_add [of 53 q] by (simp add: add.commute)
  finally have "x / pow2 q \<le> pow2 53" using p by (simp add: field_simps)
  moreover have "pow2 53 = of_int (2 ^ 53)" by (simp add: pow2_def)
  ultimately have "rne (x / pow2 q) \<le> rne (of_int (2 ^ 53))" by (intro rne_mono) simp
  then have "rne (x / pow2 q) \<le> 2 ^ 53" by (simp only: rne_of_int)
  then have "(of_int (rne (x / pow2 q)) :: rat) \<le> of_int (2 ^ 53)" by (simp only: of_int_le_iff)
  then have "of_int (rne (x / pow2 q)) * pow2 q \<le> of_int (2 ^ 53) * pow2 q"
    using p by (intro mult_right_mono) simp_all
  moreover have "of_int (2 ^ 53) * pow2 q = pow2 (q + 53)"
    using \<open>pow2 (q + 53) = pow2 53 * pow2 q\<close> by (simp add: pow2_def)
  ultimately show ?thesis by (simp add: fl_def q_def Let_def)
qed

lemma fl_mono_pos:
  assumes x: "0 < x" and le: "x \<le> y"
  shows "fl x \<le> fl y"
proof -
  define qx where "qx = max (exponent x - 52) (- 1074)"
  define qy where "qy = max (exponent y - 52) (- 1074)"
  have y: "0 < y" using x le by simp
  have e: "exponent x \<le> exponent y" using x le by (rule exponent_mono)
  then have q: "qx \<le> qy" by (simp add: qx_def qy_def)
  show ?thesis
  proof (cases "qx = qy")
    case True
    have p: "0 < pow2 qy" by (rule pow2_pos)
    then have "x / pow2 qy \<le> y / pow2 qy" using le by (simp add: divide_right_mono)
    then have "rne (x / pow2 qy) \<le> rne (y / pow2 qy)" by (rule rne_mono)
    then have "(of_int (rne (x / pow2 qy)) :: rat) \<le> of_int (rne (y / pow2 qy))" by simp
    then have "of_int (rne (x / pow2 qy)) * pow2 qy \<le> of_int (rne (y / pow2 qy)) * pow2 qy"
      using p by (intro mult_right_mono) simp_all
    then show ?thesis using True by (simp add: fl_def qx_def qy_def Let_def)
  next
    case False
    with q have lt: "qx < qy" by simp
    have "- 1074 \<le> qx" by (simp add: qx_def)
    with lt have qy: "qy = exponent y - 52" and ey: "- 1022 \<le> exponent y"
      by (simp_all add: qy_def)
    have "fl x \<le> pow2 (qx + 53)" using fl_le_pow2 [OF x] by (simp add: qx_def)
    also have "\<dots> \<le> pow2 (exponent y)" using lt qy by (intro pow2_mono) simp
    also have "\<dots> \<le> fl y"
    proof (rule fl_ge_pow2)
      show "pow2 (exponent y) \<le> y" using exponent_spec [of y] y by simp
      show "- 1022 \<le> exponent y" by (rule ey)
    qed
    finally show ?thesis .
  qed
qed

lemma fl_mono: "x \<le> y \<Longrightarrow> fl x \<le> fl y"
proof -
  assume le: "x \<le> y"
  consider "0 < x" | "x \<le> 0" "0 \<le> y" | "y < 0" using le by linarith
  then show ?thesis
  proof cases
    case 1
    then show ?thesis using le by (rule fl_mono_pos)
  next
    case 2
    then have "0 \<le> fl (- x)" "0 \<le> fl y" by (simp_all add: fl_nonneg)
    then show ?thesis by (simp add: fl_minus)
  next
    case 3
    then have "0 < - y" "- y \<le> - x" using le by simp_all
    then have "fl (- y) \<le> fl (- x)" by (rule fl_mono_pos)
    then show ?thesis by (simp add: fl_minus)
  qed
qed

lemma fadd_never_decreases: "fl x = x \<Longrightarrow> 0 \<le> c \<Longrightarrow> x \<le> fadd x c"
  using fl_mono [of x "x + c"] by (simp add: fadd_def)

lemma repeated_sum_0: "repeated_sum c 0 = 0"
  by (simp add: repeated_sum_def)

lemma repeated_sum_Suc: "repeated_sum c (Suc n) = fadd (repeated_sum c n) c"
  by (simp add: repeated_sum_def)

lemma repeated_sum_error:
  assumes c: "0 \<le> c" and k: "- 1021 \<le> k"
    and n: "of_nat n * (c + pow2 (k - 54)) < pow2 k"
  shows "\<bar>repeated_sum c n - of_nat n * c\<bar> \<le> of_nat n * pow2 (k - 54)"
  using n
proof (induction n)
  case 0
  show ?case by (simp add: repeated_sum_0)
next
  case (Suc n)
  define u where "u = pow2 (k - 54)"
  define x where "x = repeated_sum c n"
  have u: "0 < u" unfolding u_def by (rule pow2_pos)
  have step: "of_nat (Suc n) * (c + u) = of_nat n * (c + u) + (c + u)"
    by (simp add: algebra_simps)
  have small: "of_nat (Suc n) * (c + u) < pow2 k" using Suc.prems by (simp add: u_def)
  then have "of_nat n * (c + u) < pow2 k" using c u unfolding step by linarith
  then have ih: "\<bar>x - of_nat n * c\<bar> \<le> of_nat n * u"
    using Suc.IH by (simp add: u_def x_def)
  have "0 \<le> of_nat n * c + c" using c by simp
  then have "\<bar>(x - of_nat n * c) + (of_nat n * c + c)\<bar> \<le> \<bar>x - of_nat n * c\<bar> + (of_nat n * c + c)"
    using abs_triangle_ineq [of "x - of_nat n * c" "of_nat n * c + c"] by simp
  then have "\<bar>x + c\<bar> \<le> \<bar>x - of_nat n * c\<bar> + (of_nat n * c + c)"
    by (simp add: algebra_simps)
  also have "\<dots> \<le> of_nat n * u + (of_nat n * c + c)" using ih by simp
  also have "\<dots> < of_nat (Suc n) * (c + u)" using u by (simp add: algebra_simps)
  finally have "\<bar>x + c\<bar> < pow2 k" using small by linarith
  then have r: "\<bar>fl (x + c) - (x + c)\<bar> \<le> u"
    unfolding u_def using k by (rule fl_error_below)
  have "repeated_sum c (Suc n) = fl (x + c)"
    by (simp add: repeated_sum_Suc fadd_def x_def)
  moreover have "\<bar>fl (x + c) - of_nat (Suc n) * c\<bar> \<le> of_nat (Suc n) * u"
    using r ih by (simp add: algebra_simps abs_le_iff)
  ultimately show ?case by (simp add: u_def)
qed

lemma repeated_sum_near:
  assumes c: "0 \<le> c" and k: "- 1021 \<le> k"
    and N: "of_nat N * (c + pow2 (k - 54)) < pow2 k" and n: "n \<le> N"
    and d: "\<bar>c - d\<bar> \<le> e"
  shows "\<bar>repeated_sum c n - of_nat n * d\<bar> \<le> of_nat n * (pow2 (k - 54) + e)"
proof -
  have u: "0 \<le> c + pow2 (k - 54)" using c pow2_pos [of "k - 54"] by linarith
  have "(of_nat n :: rat) \<le> of_nat N" using n by simp
  then have "of_nat n * (c + pow2 (k - 54)) \<le> of_nat N * (c + pow2 (k - 54))"
    using u by (rule mult_right_mono)
  with N have "of_nat n * (c + pow2 (k - 54)) < pow2 k" by linarith
  with c k have 1: "\<bar>repeated_sum c n - of_nat n * c\<bar> \<le> of_nat n * pow2 (k - 54)"
    by (rule repeated_sum_error)
  have "\<bar>of_nat n * c - of_nat n * d\<bar> = of_nat n * \<bar>c - d\<bar>"
    by (simp add: abs_mult right_diff_distrib [symmetric])
  also have "\<dots> \<le> of_nat n * e" using d by (intro mult_left_mono) simp_all
  finally have 2: "\<bar>of_nat n * c - of_nat n * d\<bar> \<le> of_nat n * e" .
  have "\<bar>repeated_sum c n - of_nat n * d\<bar> \<le>
      \<bar>repeated_sum c n - of_nat n * c\<bar> + \<bar>of_nat n * c - of_nat n * d\<bar>"
    by linarith
  with 1 2 show ?thesis by (simp add: algebra_simps)
qed

section \<open>Evaluating the rounding\<close>

lemmas fl_eval = fl_def exponent_def ilog2_ge1.simps ilog2_lt1.simps pow2_def rne_def Let_def

lemma floor_rat_numeral_div: "\<lfloor>numeral a / numeral b :: rat\<rfloor> = numeral a div numeral b"
  by (metis floor_divide_of_int_eq of_int_numeral)

lemma floor_rat_neg_numeral_div: "\<lfloor>- numeral a / numeral b :: rat\<rfloor> = - numeral a div numeral b"
  by (metis floor_divide_of_int_eq of_int_numeral of_int_minus)

lemma literal_0_0002: "fl (1 / 5000) = 7378697629483821 / 2 ^ 65"
  by (simp add: fl_eval floor_rat_numeral_div)

lemma scroll_100: "fmul (- 100) (- fl (1 / 5000)) = 5764607523034235 / 2 ^ 58"
  by (simp add: fmul_def literal_0_0002) (simp add: fl_eval floor_rat_numeral_div)

lemma literal_0_02: "fl (1 / 50) = 5764607523034235 / 2 ^ 58"
  by (simp add: fl_eval floor_rat_numeral_div)

lemma literal_0_05: "fl (1 / 20) = 7205759403792794 / 2 ^ 57"
  by (simp add: fl_eval floor_rat_numeral_div)

lemma scroll_250: "fmul (- 250) (- fl (1 / 5000)) = 7205759403792794 / 2 ^ 57"
  by (simp add: fmul_def literal_0_0002) (simp add: fl_eval floor_rat_numeral_div)

lemma scroll_0: "fmul 0 c = 0"
  by (simp add: fmul_def fl_0)

lemma lifted_once:
  "fadd (5764607523034235 / 288230376151711744) 1 = 2296835809958953 / 2251799813685248"
  by (simp add: fadd_def) (simp add: fl_eval floor_rat_numeral_div)

lemma literal_0_01: "fl (1 / 100) = 5764607523034235 / 576460752303423488"
  by (simp add: fl_eval floor_rat_numeral_div)

lemma literal_0_075: "fl (3 / 40) = 5404319552844595 / 72057594037927936"
  by (simp add: fl_eval floor_rat_numeral_div)

lemma absorbed: "fadd 140737488355328 (5764607523034235 / 576460752303423488) = 140737488355328"
  by (simp add: fadd_def) (simp add: fl_eval floor_rat_numeral_div)

lemma torus_sum_100: "repeated_sum (5764607523034235 / 576460752303423488) 100 = 1 + 3 / 2 ^ 52"
  by (simp add: eval_nat_numeral repeated_sum_Suc repeated_sum_0 fadd_def fl_eval floor_rat_numeral_div)

lemma torus_sum_6: "repeated_sum (5764607523034235 / 576460752303423488) 6 = 8646911284551353 / 2 ^ 57"
  by (simp add: eval_nat_numeral repeated_sum_Suc repeated_sum_0 fadd_def fl_eval floor_rat_numeral_div)

lemma moon_sum_x_10: "repeated_sum (3602879701896397 / 72057594037927936) 10 = 1 / 2 - 1 / 2 ^ 54"
  by (simp add: eval_nat_numeral repeated_sum_Suc repeated_sum_0 fadd_def fl_eval floor_rat_numeral_div)

lemma moon_sum_x_5: "repeated_sum (3602879701896397 / 72057594037927936) 5 = 1 / 4"
  by (simp add: eval_nat_numeral repeated_sum_Suc repeated_sum_0 fadd_def fl_eval floor_rat_numeral_div)

lemma moon_sum_y_5: "repeated_sum (5404319552844595 / 72057594037927936) 5 = 3 / 8"
  by (simp add: eval_nat_numeral repeated_sum_Suc repeated_sum_0 fadd_def fl_eval floor_rat_numeral_div)

text \<open>A check of the model on a sum everyone knows: 0.1 + 0.2 is 0.30000000000000004, not 0.3.\<close>

lemma well_known_sum:
  "fadd (fl (1 / 10)) (fl (2 / 10)) = 5404319552844596 / 2 ^ 54 \<and>
   fl (3 / 10) = 5404319552844595 / 2 ^ 54"
  by (simp add: fadd_def fl_eval floor_rat_numeral_div)

section \<open>The numbers stay finite\<close>

lemma exponent_eqI:
  assumes "pow2 k \<le> \<bar>x\<bar>" and "\<bar>x\<bar> < pow2 (k + 1)"
  shows "exponent x = k"
proof -
  have "x \<noteq> 0" using assms(1) pow2_pos [of k] by auto
  then have "exponent x < k + 1" using assms(2) by (rule exponent_less)
  moreover have "k \<le> exponent x" using assms(1) by (rule exponent_ge)
  ultimately show ?thesis by simp
qed

lemma exponent_max: "exponent max_binary64 = 1023"
  by (rule exponent_eqI) (simp_all add: max_binary64_def pow2_def)

lemma exponent_max1: "exponent (max_binary64 + 1) = 1023"
  by (rule exponent_eqI) (simp_all add: max_binary64_def pow2_def)

lemma fl_max: "fl max_binary64 = max_binary64"
  by (simp add: fl_def exponent_max Let_def) (simp add: max_binary64_def pow2_def rne_def)

lemma fl_max1: "fl (max_binary64 + 1) = max_binary64"
  by (simp add: fl_def exponent_max1 Let_def)
    (simp add: max_binary64_def pow2_def rne_def Let_def floor_rat_numeral_div)

lemma rne_bound:
  assumes "\<bar>y\<bar> \<le> 2 ^ 53"
  shows "\<bar>rne y\<bar> \<le> 2 ^ 53"
proof -
  have "y \<le> of_int (2 ^ 53)" "of_int (- (2 ^ 53)) \<le> y" using assms by simp_all
  then have "rne y \<le> rne (of_int (2 ^ 53))" "rne (of_int (- (2 ^ 53))) \<le> rne y"
    by (simp_all only: rne_mono)
  then show ?thesis by (simp only: rne_of_int)
qed

lemma fl_representable:
  assumes m: "\<bar>m\<bar> < 2 ^ 53" and q: "- 1074 \<le> q"
  shows "fl (of_int m * pow2 q) = of_int m * pow2 q"
proof (cases "m = 0")
  case True
  then show ?thesis by (simp add: fl_0)
next
  case False
  define x where "x = of_int m * pow2 q"
  define qx where "qx = max (exponent x - 52) (- 1074)"
  have p: "0 < pow2 q" "0 < pow2 qx" by (rule pow2_pos)+
  have "x \<noteq> 0" using False p by (simp add: x_def)
  have "\<bar>x\<bar> = of_int \<bar>m\<bar> * pow2 q" using p by (simp add: x_def abs_mult)
  also have "\<dots> < of_int (2 ^ 53) * pow2 q"
    using m p by (intro mult_strict_right_mono) (simp_all only: of_int_less_iff)
  also have "\<dots> = pow2 (53 + q)" using pow2_add [of 53 q] by (simp add: pow2_def)
  finally have "exponent x < 53 + q" using \<open>x \<noteq> 0\<close> by (intro exponent_less)
  then have le: "qx \<le> q" using q by (simp add: qx_def)
  define k where "k = nat (q - qx)"
  have "pow2 q = pow2 (int k) * pow2 qx" using pow2_add [of "int k" qx] le by (simp add: k_def)
  then have "x / pow2 qx = of_int m * pow2 (int k)" using p by (simp add: x_def)
  also have "\<dots> = of_int (m * 2 ^ k)" by (simp add: pow2_nat)
  finally have "rne (x / pow2 qx) = m * 2 ^ k" by (simp only: rne_of_int)
  then have "fl x = of_int (m * 2 ^ k) * pow2 qx" by (simp add: fl_def qx_def Let_def)
  also have "\<dots> = of_int m * (pow2 (int k) * pow2 qx)" by (simp add: pow2_nat)
  also have "\<dots> = x" using \<open>pow2 q = pow2 (int k) * pow2 qx\<close> by (simp add: x_def)
  finally show ?thesis by (simp add: x_def)
qed

lemma fl_idem: "fl (fl x) = fl x"
proof (cases "x = 0")
  case True
  then show ?thesis by (simp add: fl_0)
next
  case False
  define q where "q = max (exponent x - 52) (- 1074)"
  define m where "m = rne (x / pow2 q)"
  have p: "0 < pow2 q" by (rule pow2_pos)
  have flx: "fl x = of_int m * pow2 q" by (simp add: fl_def q_def m_def Let_def)
  have q: "- 1074 \<le> q" by (simp add: q_def)
  have "\<bar>x\<bar> < pow2 (exponent x + 1)" using exponent_spec [OF False] by simp
  also have "\<dots> \<le> pow2 (53 + q)" by (rule pow2_mono) (simp add: q_def)
  also have "\<dots> = 2 ^ 53 * pow2 q" using pow2_add [of 53 q] by (simp add: pow2_def)
  finally have "\<bar>x / pow2 q\<bar> \<le> 2 ^ 53" using p by (simp add: field_simps)
  then have mb: "\<bar>m\<bar> \<le> 2 ^ 53" unfolding m_def by (rule rne_bound)
  show ?thesis
  proof (cases "\<bar>m\<bar> < 2 ^ 53")
    case True
    then show ?thesis unfolding flx using q by (rule fl_representable)
  next
    case False
    with mb have "m = 2 ^ 53 \<or> m = - (2 ^ 53)" by linarith
    then obtain m' :: int where m': "\<bar>m'\<bar> < 2 ^ 53" "m = 2 * m'"
    proof
      assume "m = 2 ^ 53"
      then have "\<bar>2 ^ 52 :: int\<bar> < 2 ^ 53" "m = 2 * 2 ^ 52" by simp_all
      then show ?thesis by (rule that)
    next
      assume "m = - (2 ^ 53)"
      then have "\<bar>- (2 ^ 52) :: int\<bar> < 2 ^ 53" "m = 2 * - (2 ^ 52)" by simp_all
      then show ?thesis by (rule that)
    qed
    have "pow2 (q + 1) = 2 * pow2 q" using pow2_add [of 1 q] by (simp add: pow2_def add.commute)
    then have "fl x = of_int m' * pow2 (q + 1)" by (simp add: flx m'(2))
    moreover have "fl (of_int m' * pow2 (q + 1)) = of_int m' * pow2 (q + 1)"
      using m'(1) q by (intro fl_representable) simp_all
    ultimately show ?thesis by simp
  qed
qed

text \<open>
  Rounding is to nearest: the result is left as it is by a second rounding, and no number
  that rounding leaves as it is lies closer to the argument.
\<close>

lemma rne_nearest: "\<bar>of_int (rne y) - y\<bar> \<le> \<bar>of_int k - y\<bar>"
proof -
  have b: "of_int \<lfloor>y\<rfloor> \<le> y" "y < of_int \<lfloor>y\<rfloor> + 1" by linarith+
  consider "k \<le> \<lfloor>y\<rfloor>" | "\<lfloor>y\<rfloor> + 1 \<le> k" by linarith
  then show ?thesis
  proof cases
    case 1
    then have "(of_int k :: rat) \<le> of_int \<lfloor>y\<rfloor>" by (simp only: of_int_le_iff)
    then show ?thesis using b by (auto simp: rne_def Let_def)
  next
    case 2
    then have "(of_int (\<lfloor>y\<rfloor> + 1) :: rat) \<le> of_int k" by (simp only: of_int_le_iff)
    then show ?thesis using b by (auto simp: rne_def Let_def)
  qed
qed

lemma fl_nearest_grid:
  "\<bar>fl x - x\<bar> \<le> \<bar>of_int k * pow2 (max (exponent x - 52) (- 1074)) - x\<bar>"
proof -
  define q where "q = max (exponent x - 52) (- 1074)"
  have p: "0 < pow2 q" by (rule pow2_pos)
  have "fl x - x = (of_int (rne (x / pow2 q)) - x / pow2 q) * pow2 q"
    using p by (simp add: fl_def q_def [symmetric] field_simps)
  then have "\<bar>fl x - x\<bar> = \<bar>of_int (rne (x / pow2 q)) - x / pow2 q\<bar> * pow2 q"
    using p by (simp add: abs_mult)
  also have "\<dots> \<le> \<bar>of_int k - x / pow2 q\<bar> * pow2 q"
    using rne_nearest [of "x / pow2 q" k] p by (intro mult_right_mono) simp_all
  also have "\<dots> = \<bar>(of_int k - x / pow2 q) * pow2 q\<bar>" using p by (simp add: abs_mult)
  also have "(of_int k - x / pow2 q) * pow2 q = of_int k * pow2 q - x"
    using p by (simp add: field_simps)
  finally show ?thesis by (simp add: q_def)
qed

lemma fl_nearest:
  assumes r: "fl r = r"
  shows "\<bar>fl x - x\<bar> \<le> \<bar>r - x\<bar>"
proof (cases "x = 0 \<or> r = 0")
  case True
  then show ?thesis
  proof
    assume "x = 0"
    then show ?thesis by (simp add: fl_0)
  next
    assume "r = 0"
    then show ?thesis using fl_nearest_grid [of x 0] by simp
  qed
next
  case False
  then have x: "x \<noteq> 0" and r0: "r \<noteq> 0" by simp_all
  define q where "q = max (exponent x - 52) (- 1074)"
  define qr where "qr = max (exponent r - 52) (- 1074)"
  define m where "m = rne (r / pow2 qr)"
  have rm: "r = of_int m * pow2 qr" using r by (simp add: fl_def qr_def m_def Let_def)
  show ?thesis
  proof (cases "q \<le> qr")
    case True
    define k where "k = nat (qr - q)"
    have "pow2 qr = pow2 (int k) * pow2 q" using pow2_add [of "int k" q] True by (simp add: k_def)
    then have "r = of_int (m * 2 ^ k) * pow2 q" using rm by (simp add: pow2_nat)
    then show ?thesis using fl_nearest_grid [of x "m * 2 ^ k"] by (simp add: q_def)
  next
    case False
    then have lt: "qr < q" by simp
    have "- 1074 \<le> qr" by (simp add: qr_def)
    with lt have q: "q = exponent x - 52" by (simp add: q_def)
    from lt have "exponent r < exponent x" by (simp add: q qr_def)
    then have "pow2 (exponent r + 1) \<le> pow2 (exponent x)" by (intro pow2_mono) simp
    moreover have "\<bar>r\<bar> < pow2 (exponent r + 1)" using exponent_spec [OF r0] by simp
    moreover have ex: "pow2 (exponent x) \<le> \<bar>x\<bar>" using exponent_spec [OF x] by simp
    ultimately have rlt: "\<bar>r\<bar> < pow2 (exponent x)" by linarith
    have g: "pow2 (exponent x) = of_int (2 ^ 52) * pow2 q"
      using pow2_add [of 52 q] by (simp add: q pow2_def)
    show ?thesis
    proof (cases "0 < x")
      case True
      have "\<bar>fl x - x\<bar> \<le> \<bar>of_int (2 ^ 52) * pow2 q - x\<bar>"
        using fl_nearest_grid [of x "2 ^ 52"] by (simp only: q_def)
      also have "\<dots> = \<bar>pow2 (exponent x) - x\<bar>" by (simp only: g)
      also have "\<dots> \<le> \<bar>r - x\<bar>" using rlt ex True by linarith
      finally show ?thesis .
    next
      case False
      have "\<bar>fl x - x\<bar> \<le> \<bar>of_int (- (2 ^ 52)) * pow2 q - x\<bar>"
        using fl_nearest_grid [of x "- (2 ^ 52)"] by (simp only: q_def)
      also have "of_int (- (2 ^ 52)) * pow2 q = - pow2 (exponent x)" by (simp add: g)
      also have "\<bar>- pow2 (exponent x) - x\<bar> \<le> \<bar>r - x\<bar>" using rlt ex False x by linarith
      finally show ?thesis .
    qed
  qed
qed

lemma binary64_fl:
  assumes "\<bar>x\<bar> \<le> max_binary64 + 1"
  shows "binary64 (fl x)"
proof -
  have "x \<le> max_binary64 + 1" "- x \<le> max_binary64 + 1" using assms by simp_all
  then have "fl x \<le> fl (max_binary64 + 1)" "fl (- x) \<le> fl (max_binary64 + 1)"
    by (simp_all only: fl_mono)
  then have "\<bar>fl x\<bar> \<le> max_binary64" by (simp add: fl_max1 fl_minus)
  then show ?thesis by (simp add: binary64_def fl_idem)
qed

lemma binary64_fadd:
  assumes "binary64 a" and "\<bar>c\<bar> \<le> 1"
  shows "binary64 (fadd a c)"
proof -
  have "\<bar>a\<bar> \<le> max_binary64" using assms(1) by (simp add: binary64_def)
  with assms(2) have "\<bar>a + c\<bar> \<le> max_binary64 + 1" by linarith
  then show ?thesis unfolding fadd_def by (rule binary64_fl)
qed

lemma binary64_fmul:
  assumes "binary64 t" and "\<bar>c\<bar> \<le> 1"
  shows "binary64 (fmul t c)"
proof -
  have "\<bar>t * c\<bar> \<le> \<bar>t\<bar> * 1" unfolding abs_mult using assms(2) by (intro mult_left_mono) simp_all
  then have "\<bar>t * c\<bar> \<le> max_binary64 + 1" using assms(1) by (simp add: binary64_def)
  then show ?thesis unfolding fmul_def by (rule binary64_fl)
qed

lemma binary64_literals:
  "binary64 (fl (1 / 100))" "binary64 (fl (1 / 20))" "binary64 (fl (3 / 40))"
  "binary64 (- fl (1 / 5000))" "binary64 0" "binary64 2" "binary64 30"
  "\<bar>fl (1 / 100)\<bar> \<le> 1" "\<bar>fl (1 / 20)\<bar> \<le> 1" "\<bar>fl (3 / 40)\<bar> \<le> 1" "\<bar>- fl (1 / 5000)\<bar> \<le> 1"
proof -
  have m: "30 \<le> max_binary64" by (simp add: max_binary64_def)
  have a: "\<bar>x\<bar> \<le> 1 \<Longrightarrow> binary64 (fl x)" for x using m by (intro binary64_fl) simp
  show "binary64 (fl (1 / 100))" "binary64 (fl (1 / 20))" "binary64 (fl (3 / 40))"
    by (simp_all add: a)
  have "binary64 (fl (- (1 / 5000)))" by (rule a) simp
  then show "binary64 (- fl (1 / 5000))" by (simp only: fl_minus)
  show "binary64 0" using m by (simp add: binary64_def fl_0)
  have "fl 2 = 2" "fl 30 = 30" by (simp_all add: fl_eval)
  then show "binary64 2" "binary64 30" using m by (simp_all add: binary64_def)
  show "\<bar>fl (1 / 100)\<bar> \<le> 1" "\<bar>fl (1 / 20)\<bar> \<le> 1" "\<bar>fl (3 / 40)\<bar> \<le> 1" "\<bar>- fl (1 / 5000)\<bar> \<le> 1"
    by (simp_all add: literal_0_01 literal_0_05 literal_0_075 literal_0_0002)
qed

section \<open>Sums of the literals\<close>

lemma fadd_0_01_strict:
  assumes "\<bar>x\<bar> < 2 ^ 47"
  shows "x < fadd x (fl (1 / 100))"
proof -
  define c :: rat where "c = 5764607523034235 / 576460752303423488"
  have c: "fl (1 / 100) = c" by (simp add: literal_0_01 c_def)
  have p47: "pow2 47 = 2 ^ 47" and p7: "pow2 (47 - 54) = 1 / 128" by (simp_all add: pow2_def)
  have big: "1 / 128 < c" by (simp add: c_def)
  show ?thesis
  proof (cases "pow2 47 \<le> x + c")
    case True
    then have "pow2 47 \<le> fl (x + c)" by (rule fl_ge_pow2) simp
    then show ?thesis using assms by (simp add: fadd_def c p47)
  next
    case False
    then have "\<bar>x + c\<bar> < pow2 47" using assms big by (simp add: p47 abs_if split: if_splits)
    then have "\<bar>fl (x + c) - (x + c)\<bar> \<le> pow2 (47 - 54)" by (rule fl_error_below) simp
    then have "\<bar>fl (x + c) - (x + c)\<bar> \<le> 1 / 128" by (simp only: p7)
    then have "x < fl (x + c)" using big by linarith
    then show ?thesis by (simp add: fadd_def c)
  qed
qed

lemma fadd_0_01_absorbed:
  assumes r: "fl x = x" and x: "2 ^ 47 \<le> x"
  shows "fadd x (fl (1 / 100)) = x"
proof -
  define c :: rat where "c = 5764607523034235 / 576460752303423488"
  have c: "fl (1 / 100) = c" by (simp add: literal_0_01 c_def)
  have cpos: "0 < c" and csmall: "c < 1 / 64" by (simp_all add: c_def)
  define e where "e = exponent x"
  define q where "q = e - 52"
  have xpos: "0 < x" using x by (simp add: less_le_trans [of 0 "2 ^ 47"])
  have "pow2 47 \<le> \<bar>x\<bar>" using x xpos by (simp add: pow2_def)
  then have e47: "47 \<le> e" unfolding e_def by (rule exponent_ge)
  then have qx: "max (exponent x - 52) (- 1074) = q" by (simp add: q_def e_def)
  have p: "0 < pow2 q" by (rule pow2_pos)
  have "pow2 (- 5) \<le> pow2 q" using e47 by (intro pow2_mono) (simp add: q_def)
  then have pq: "1 / 32 \<le> pow2 q" by (simp add: pow2_def)
  define m where "m = rne (x / pow2 q)"
  have xm: "x = of_int m * pow2 q" using r by (simp add: fl_def qx m_def Let_def)
  have p53: "pow2 53 = of_int (2 ^ 53)" by (simp add: pow2_def)
  have "e + 1 = 53 + q" by (simp add: q_def)
  then have top: "pow2 (e + 1) = of_int (2 ^ 53) * pow2 q"
    by (simp only: pow2_add p53)
  have lo: "pow2 e \<le> x" and hi: "x < pow2 (e + 1)"
    using exponent_spec [of x] xpos by (simp_all add: e_def)
  from hi have "of_int m * pow2 q < of_int (2 ^ 53) * pow2 q" by (simp only: xm [symmetric] top)
  then have "(of_int m :: rat) < of_int (2 ^ 53)" using p by (simp only: mult_less_cancel_right_pos)
  then have "m < 2 ^ 53" by (simp only: of_int_less_iff)
  then have "m + 1 \<le> 2 ^ 53" by simp
  then have "(of_int (m + 1) :: rat) \<le> of_int (2 ^ 53)" by (simp only: of_int_le_iff)
  then have "of_int (m + 1) * pow2 q \<le> of_int (2 ^ 53) * pow2 q"
    using p by (intro mult_right_mono) simp_all
  moreover have "of_int (m + 1) * pow2 q = x + pow2 q" by (simp add: xm algebra_simps)
  ultimately have next_up: "x + pow2 q \<le> pow2 (e + 1)" by (simp only: top)
  have "c < pow2 q" using csmall pq by linarith
  with next_up have yhi: "x + c < pow2 (e + 1)" by linarith
  have "pow2 e \<le> \<bar>x + c\<bar>" "\<bar>x + c\<bar> < pow2 (e + 1)" using lo yhi cpos xpos by simp_all
  then have "exponent (x + c) = e" by (rule exponent_eqI)
  then have qy: "max (exponent (x + c) - 52) (- 1074) = q" using e47 by (simp add: q_def)
  define d where "d = c / pow2 q"
  have d: "0 \<le> d" "d < 1 / 2"
    using cpos csmall pq p by (simp_all add: d_def field_simps)
  have "(x + c) / pow2 q = of_int m + d" using p by (simp add: xm d_def field_simps)
  moreover have "\<lfloor>of_int m + d\<rfloor> = m" using d by (intro floor_unique) simp_all
  ultimately have "rne ((x + c) / pow2 q) = m" using d by (simp add: rne_def Let_def)
  then have "fl (x + c) = of_int m * pow2 q" by (simp add: fl_def qy Let_def)
  then show ?thesis by (simp add: fadd_def c xm)
qed

lemma torus_near_100:
  assumes "n \<le> 100"
  shows "\<bar>repeated_sum (5764607523034235 / 576460752303423488) n - of_nat n / 100\<bar> \<le> of_nat n / 2 ^ 52"
proof -
  have "\<bar>repeated_sum (5764607523034235 / 576460752303423488) n - of_nat n * (1 / 100)\<bar>
      \<le> of_nat n * (pow2 (1 - 54) + 3 / 14411518807585587200)"
    using _ _ _ assms by (rule repeated_sum_near) (simp_all add: pow2_def)
  also have "\<dots> \<le> of_nat n * (1 / 2 ^ 52)"
    by (intro mult_left_mono) (simp_all add: pow2_def)
  finally show ?thesis by simp
qed

lemma torus_near_million:
  assumes "n \<le> 1000000"
  shows "\<bar>repeated_sum (5764607523034235 / 576460752303423488) n - of_nat n / 100\<bar> \<le> of_nat n / 2 ^ 39"
proof -
  have "\<bar>repeated_sum (5764607523034235 / 576460752303423488) n - of_nat n * (1 / 100)\<bar>
      \<le> of_nat n * (pow2 (14 - 54) + 3 / 14411518807585587200)"
    using _ _ _ assms by (rule repeated_sum_near) (simp_all add: pow2_def)
  also have "\<dots> \<le> of_nat n * (1 / 2 ^ 39)"
    by (intro mult_left_mono) (simp_all add: pow2_def)
  finally show ?thesis by simp
qed

lemma moon_x_near:
  assumes "n \<le> 100000"
  shows "\<bar>repeated_sum (3602879701896397 / 72057594037927936) n - of_nat n * (5 / 100)\<bar> \<le> of_nat n / 2 ^ 40"
proof -
  have "\<bar>repeated_sum (3602879701896397 / 72057594037927936) n - of_nat n * (5 / 100)\<bar>
      \<le> of_nat n * (pow2 (13 - 54) + 1 / 360287970189639680)"
    using _ _ _ assms by (rule repeated_sum_near) (simp_all add: pow2_def)
  also have "\<dots> \<le> of_nat n * (1 / 2 ^ 40)"
    by (intro mult_left_mono) (simp_all add: pow2_def)
  finally show ?thesis by simp
qed

lemma moon_y_near:
  assumes "n \<le> 100000"
  shows "\<bar>repeated_sum (5404319552844595 / 72057594037927936) n - of_nat n * (75 / 1000)\<bar> \<le> of_nat n / 2 ^ 40"
proof -
  have "\<bar>repeated_sum (5404319552844595 / 72057594037927936) n - of_nat n * (75 / 1000)\<bar>
      \<le> of_nat n * (pow2 (13 - 54) + 1 / 360287970189639680)"
    using _ _ _ assms by (rule repeated_sum_near) (simp_all add: pow2_def)
  also have "\<dots> \<le> of_nat n * (1 / 2 ^ 40)"
    by (intro mult_left_mono) (simp_all add: pow2_def)
  finally show ?thesis by simp
qed

lemma torus_below_stall:
  assumes "n \<le> 7000000000000000"
  shows "\<bar>repeated_sum (5764607523034235 / 576460752303423488) n\<bar> < 2 ^ 47"
proof -
  define c :: rat where "c = 5764607523034235 / 576460752303423488"
  have "\<bar>repeated_sum c n - of_nat n * c\<bar> \<le> of_nat n * (pow2 (47 - 54) + 0)"
    using _ _ _ assms by (rule repeated_sum_near) (simp_all add: pow2_def c_def)
  then have "\<bar>repeated_sum c n\<bar> \<le> of_nat n * c + of_nat n * pow2 (47 - 54)"
    by (simp add: algebra_simps abs_le_iff c_def)
  also have "\<dots> = of_nat n * (c + 1 / 128)" by (simp add: pow2_def algebra_simps)
  also have "\<dots> \<le> of_nat (7000000000000000::nat) * (c + 1 / 128)"
    using assms by (intro mult_right_mono) (simp_all add: c_def)
  also have "\<dots> < 2 ^ 47" by (simp add: c_def)
  finally show ?thesis by (simp add: c_def)
qed

section \<open>What one invocation does\<close>

lemma build_scene_idle: "build_scene idle_host () = Some built"
  by (simp add: build_scene_def built_def call_setZ_def new_Vector3_def assign_setZ_def setX_def
      idle_host_def Let_def)

lemma animate_completion: "snd (animate h s) = Normal"
  by (simp add: animate_def animate_body_def)

lemma animate_scene:
  "the_scene (fst (animate h s)) =
     (the_scene s)\<lparr>torus_rotation :=
        \<lparr>rot_x = fadd (rot_x (torus_rotation (the_scene s))) (fl (1 / 100)),
         rot_y = fadd (rot_y (torus_rotation (the_scene s))) (fl (1 / 100)),
         rot_z = fadd (rot_z (torus_rotation (the_scene s))) (fl (1 / 100))\<rparr>\<rparr>"
  by (simp add: animate_def animate_body_def set_torus_def split_def)

lemma animate_camera:
  "camera_position (fst (animate h s)) = snd (controls_update h (external s) (camera_position s))"
  by (simp add: animate_def animate_body_def set_torus_def split_def)

lemma animate_external:
  "external (fst (animate h s)) =
     renderer_render h (fst (controls_update h (external s) (camera_position s)))
       (the_scene (fst (animate h s))) (camera_position (fst (animate h s)))"
  by (simp add: animate_def animate_body_def set_torus_def split_def)

lemma animate_requests: "frame_requests (fst (animate h s)) = Suc (frame_requests s)"
  by (simp add: animate_def animate_body_def set_torus_def split_def)

lemma animate_calls:
  "calls (fst (animate h s)) =
     calls s @ [Call_requestAnimationFrame, Call_controls_update,
       Call_render (the_scene (fst (animate h s))) (camera_position (fst (animate h s)))]"
  by (simp add: animate_def animate_body_def set_torus_def split_def)

lemma moveCamera_scene:
  "the_scene (moveCamera t s) =
     (the_scene s)\<lparr>moon_rotation :=
        \<lparr>rot_x = fadd (rot_x (moon_rotation (the_scene s))) (fl (5 / 100)),
         rot_y = fadd (rot_y (moon_rotation (the_scene s))) (fl (75 / 1000)),
         rot_z = fadd (rot_z (moon_rotation (the_scene s))) (fl (5 / 100))\<rparr>\<rparr>"
  by (simp add: moveCamera_def Let_def)

lemma moveCamera_camera:
  "camera_position (moveCamera t s) = (camera_position s)\<lparr>vec_y := fmul t (- fl (2 / 10000))\<rparr>"
  by (simp add: moveCamera_def Let_def)

lemma moveCamera_rest:
  "external (moveCamera t s) = external s"
  "frame_requests (moveCamera t s) = frame_requests s"
  "calls (moveCamera t s) = calls s"
  by (simp_all add: moveCamera_def Let_def)

lemma exec_requests:
  "st \<noteq> Request_frame \<Longrightarrow> frame_requests (exec h st s) = frame_requests s"
  by (cases st) (simp_all add: set_torus_def split_def)

lemma exec_calls: "\<exists>cs. calls (exec h st s) = calls s @ cs"
  by (cases st) (simp_all add: set_torus_def split_def)

lemma run_stmts_requests:
  "Request_frame \<notin> set sts \<Longrightarrow>
     frame_requests (fst (run_stmts faulty h sts s)) = frame_requests s"
proof (induction sts arbitrary: s)
  case Nil
  show ?case by simp
next
  case (Cons st sts)
  then have "st \<noteq> Request_frame" and "Request_frame \<notin> set sts" by auto
  then show ?case using Cons.IH [of "exec h st s"] by (simp add: exec_requests)
qed

lemma run_stmts_calls: "\<exists>cs. calls (fst (run_stmts faulty h sts s)) = calls s @ cs"
proof (induction sts arbitrary: s)
  case Nil
  show ?case by simp
next
  case (Cons st sts)
  show ?case
  proof (cases "faulty st")
    case True
    then show ?thesis by simp
  next
    case False
    obtain cs where 1: "calls (exec h st s) = calls s @ cs" using exec_calls by blast
    obtain ds where "calls (fst (run_stmts faulty h sts (exec h st s))) = calls (exec h st s) @ ds"
      using Cons.IH by blast
    with 1 False show ?thesis by simp
  qed
qed

lemma iterate_fadd_swap:
  "((\<lambda>x. fadd x c) ^^ n) (fadd x c) = fadd (((\<lambda>x. fadd x c) ^^ n) x) c"
  by (induction n) simp_all

lemma frames_torus:
  "torus_rotation (the_scene (frames h n s)) =
     \<lparr>rot_x = ((\<lambda>x. fadd x (fl (1 / 100))) ^^ n) (rot_x (torus_rotation (the_scene s))),
      rot_y = ((\<lambda>x. fadd x (fl (1 / 100))) ^^ n) (rot_y (torus_rotation (the_scene s))),
      rot_z = ((\<lambda>x. fadd x (fl (1 / 100))) ^^ n) (rot_z (torus_rotation (the_scene s)))\<rparr>"
proof (induction n arbitrary: s)
  case 0
  show ?case by simp
next
  case (Suc n)
  show ?case by (simp add: Suc.IH animate_scene iterate_fadd_swap)
qed

lemma scrolls_moon:
  "moon_rotation (the_scene (run h (map Scroll ts) s)) =
     \<lparr>rot_x = ((\<lambda>x. fadd x (fl (5 / 100))) ^^ length ts) (rot_x (moon_rotation (the_scene s))),
      rot_y = ((\<lambda>x. fadd x (fl (75 / 1000))) ^^ length ts) (rot_y (moon_rotation (the_scene s))),
      rot_z = ((\<lambda>x. fadd x (fl (5 / 100))) ^^ length ts) (rot_z (moon_rotation (the_scene s)))\<rparr>"
proof (induction ts arbitrary: s)
  case Nil
  show ?case by (simp add: run_def)
next
  case (Cons t ts)
  have "run h (map Scroll (t # ts)) s = run h (map Scroll ts) (moveCamera t s)"
    by (simp add: run_def)
  then show ?case by (simp add: Cons.IH moveCamera_scene iterate_fadd_swap)
qed

text \<open>
  The operations of the program keep binary64 numbers binary64: no sum and no product of
  the program overflows.
\<close>

lemma animate_binary64:
  assumes "binary64 (rot_x (torus_rotation (the_scene s)))"
    and "binary64 (rot_y (torus_rotation (the_scene s)))"
    and "binary64 (rot_z (torus_rotation (the_scene s)))"
  shows "binary64 (rot_x (torus_rotation (the_scene (fst (animate h s))))) \<and>
    binary64 (rot_y (torus_rotation (the_scene (fst (animate h s))))) \<and>
    binary64 (rot_z (torus_rotation (the_scene (fst (animate h s)))))"
  using assms by (simp add: animate_scene binary64_fadd binary64_literals)

lemma moveCamera_binary64:
  assumes "binary64 t"
    and "binary64 (rot_x (moon_rotation (the_scene s)))"
    and "binary64 (rot_y (moon_rotation (the_scene s)))"
    and "binary64 (rot_z (moon_rotation (the_scene s)))"
  shows "binary64 (rot_x (moon_rotation (the_scene (moveCamera t s)))) \<and>
    binary64 (rot_y (moon_rotation (the_scene (moveCamera t s)))) \<and>
    binary64 (rot_z (moon_rotation (the_scene (moveCamera t s)))) \<and>
    binary64 (vec_y (camera_position (moveCamera t s)))"
proof -
  have "\<bar>- fl (1 / 5000)\<bar> \<le> 1" by (rule binary64_literals)
  with assms(1) have "binary64 (fmul t (- fl (1 / 5000)))" by (rule binary64_fmul)
  then show ?thesis
    using assms by (simp add: moveCamera_scene moveCamera_camera binary64_fadd binary64_literals)
qed

section \<open>The frame request\<close>

text \<open>
  Claim C2. The request for the next frame is the first statement of \<^verbatim>\<open>animate\<close>, and
  it changes nothing but the number of pending requests and the record of calls. Whichever
  of the later statements throw, and however far the invocation has got (after the first
  \<open>k\<close> statements, for every \<open>k\<close> from 1 on), one more request is pending than before
  the invocation, and the request is the first call it has made.
\<close>

theorem frame_request_comes_first:
  assumes "\<not> faulty Request_frame" and "0 < k"
  shows "hd animate_body = Request_frame \<and>
    exec h Request_frame s =
      s\<lparr>frame_requests := Suc (frame_requests s),
        calls := calls s @ [Call_requestAnimationFrame]\<rparr> \<and>
    frame_requests (fst (run_stmts faulty h (take k animate_body) s)) = Suc (frame_requests s) \<and>
    (\<exists>cs. calls (fst (run_stmts faulty h (take k animate_body) s)) =
       calls s @ Call_requestAnimationFrame # cs)"
proof -
  define rest where "rest = take (k - 1) [Torus_x, Torus_y, Torus_z, Controls_update, Render]"
  define s1 where "s1 = exec h Request_frame s"
  have tk: "take k animate_body = Request_frame # rest"
    using assms(2) by (simp add: animate_body_def rest_def take_Cons')
  have "set rest \<subseteq> set [Torus_x, Torus_y, Torus_z, Controls_update, Render]"
    unfolding rest_def by (rule set_take_subset)
  then have notin: "Request_frame \<notin> set rest" by auto
  have run: "run_stmts faulty h (take k animate_body) s = run_stmts faulty h rest s1"
    using assms(1) by (simp add: tk s1_def)
  have a: "frame_requests (fst (run_stmts faulty h rest s1)) = Suc (frame_requests s)"
    using run_stmts_requests [OF notin, of faulty h s1] by (simp add: s1_def)
  obtain cs where "calls (fst (run_stmts faulty h rest s1)) = calls s1 @ cs"
    using run_stmts_calls by blast
  then have b: "calls (fst (run_stmts faulty h rest s1)) = calls s @ Call_requestAnimationFrame # cs"
    by (simp add: s1_def)
  have p1: "hd animate_body = Request_frame" by (simp add: animate_body_def)
  have p2: "exec h Request_frame s =
      s\<lparr>frame_requests := Suc (frame_requests s),
        calls := calls s @ [Call_requestAnimationFrame]\<rparr>" by simp
  have p3: "frame_requests (fst (run_stmts faulty h (take k animate_body) s)) = Suc (frame_requests s)"
    using a by (simp only: run)
  have p4: "\<exists>cs. calls (fst (run_stmts faulty h (take k animate_body) s)) =
       calls s @ Call_requestAnimationFrame # cs"
    using b by (simp only: run) blast
  show ?thesis using p1 p2 p3 p4 by blast
qed

theorem frame_request_comes_first_witness:
  "frame_requests (fst (run_stmts (\<lambda>st. st = Render) idle_host (take 6 animate_body) built)) = 1
   \<and> snd (run_stmts (\<lambda>st. st = Render) idle_host (take 6 animate_body) built) = Throw
   \<and> frame_requests (fst (run_stmts (\<lambda>st. st = Torus_x) idle_host (take 2 animate_body) built)) = 1"
proof -
  have "frame_requests built = 0" by (simp add: built_def)
  moreover have "snd (run_stmts (\<lambda>st. st = Render) idle_host (take 6 animate_body) built) = Throw"
    by (simp add: animate_body_def)
  ultimately show ?thesis
    using frame_request_comes_first [of "\<lambda>st. st = Render" 6 idle_host built]
      frame_request_comes_first [of "\<lambda>st. st = Torus_x" 2 idle_host built]
    by simp
qed

section \<open>The camera\<close>

text \<open>
  Claim C3. After a scroll event the vertical position of the camera is the product
  \<^verbatim>\<open>t * -0.0002\<close> of the offset \<open>t\<close> read at that event. It is assigned, not added to:
  after any sequence of scroll events it is the product for the last offset, whatever the
  earlier offsets, the state before them and the host were.
\<close>

theorem camera_y_is_latest_offset:
  "vec_y (camera_position (moveCamera t s)) = fmul t (- fl (2 / 10000)) \<and>
   vec_y (camera_position (run h (map Scroll (ts @ [t])) s)) = fmul t (- fl (2 / 10000)) \<and>
   vec_y (camera_position (run h (map Scroll (ts @ [t])) s)) =
     vec_y (camera_position (run h' (map Scroll (ts' @ [t])) s'))"
  by (simp add: run_def moveCamera_camera)

text \<open>
  Claim C5. Three scroll events with the offsets 0, -100 and -250 leave the vertical
  position of the camera at 0, then at the binary64 number 0.02, then at the binary64 number
  0.05, from any state and on any host. These two numbers are within \<open>2 ^ - 61\<close> and
  \<open>2 ^ - 58\<close> of the rationals 2/100 and 5/100, which are the exact products of the
  offsets and -2/10000.
\<close>

theorem camera_y_scenario:
  "vec_y (camera_position (run h [Scroll 0] s)) = 0 \<and>
   vec_y (camera_position (run h [Scroll 0, Scroll (- 100)] s)) = fl (2 / 100) \<and>
   vec_y (camera_position (run h [Scroll 0, Scroll (- 100), Scroll (- 250)] s)) = fl (5 / 100) \<and>
   \<bar>fl (2 / 100) - 2 / 100\<bar> \<le> 1 / 2 ^ 61 \<and>
   \<bar>fl (5 / 100) - 5 / 100\<bar> \<le> 1 / 2 ^ 58 \<and>
   (0::rat) * - (2 / 10000) = 0 \<and>
   (- 100::rat) * - (2 / 10000) = 2 / 100 \<and>
   (- 250::rat) * - (2 / 10000) = 5 / 100"
  by (simp add: run_def moveCamera_camera scroll_0 scroll_100 scroll_250 literal_0_02 literal_0_05)

text \<open>
  Claim C6, as amended. The position of the camera after \<^verbatim>\<open>animate\<close> is the one that
  \<^verbatim>\<open>controls.update()\<close> returned: no statement of \<^verbatim>\<open>animate\<close> itself writes a coordinate
  of the camera. The scroll handler \<^verbatim>\<open>moveCamera\<close> writes the vertical coordinate and
  leaves the other two. At start-up, line 16 sets the position to (0, 0, 30), and the
  position the program starts with is what the constructor of the controls (line 85) made
  of that.
\<close>

theorem camera_position_writers:
  "camera_position (fst (animate h s)) = snd (controls_update h (external s) (camera_position s)) \<and>
   camera_position (moveCamera t s) = (camera_position s)\<lparr>vec_y := fmul t (- fl (2 / 10000))\<rparr> \<and>
   call_setZ new_Vector3 30 =
     Some \<lparr>vec_x = 0, vec_y = 0, vec_z = 30, setZ_property = Prototype_method\<rparr> \<and>
   map_option camera_position (build_scene h w) =
     Some (snd (new_OrbitControls h
       (renderer_render h w
          \<lparr>torus_rotation = new_Euler, moon_rotation = new_Euler, moon_position = new_Vector3\<rparr>
          \<lparr>vec_x = 0, vec_y = 0, vec_z = 30, setZ_property = Prototype_method\<rparr>)
       \<lparr>vec_x = 0, vec_y = 0, vec_z = 30, setZ_property = Prototype_method\<rparr>))"
  by (simp add: animate_camera moveCamera_camera build_scene_def call_setZ_def new_Vector3_def
      Let_def)

text \<open>
  Against claim C6 as it stands: on a host whose controls leave the camera alone,
  \<^verbatim>\<open>moveCamera\<close> (which is neither the update step nor the controls) changes the
  vertical position of the camera, and \<^verbatim>\<open>animate\<close> does not change the position at all;
  and the start-up code, which is neither of them on any reading, moves the camera from
  \<open>z = 0\<close> to \<open>z = 30\<close>.
\<close>

theorem scroll_handler_writes_camera_counterexample:
  "vec_y (camera_position (moveCamera (- 100) built)) \<noteq> vec_y (camera_position built) \<and>
   camera_position (fst (animate idle_host built)) = camera_position built \<and>
   vec_z new_Vector3 = 0 \<and>
   map_option vec_z (call_setZ new_Vector3 30) = Some 30 \<and>
   map_option (\<lambda>s. vec_z (camera_position s)) (build_scene idle_host ()) = Some 30"
  using build_scene_idle
  by (simp add: moveCamera_camera animate_camera scroll_100)
    (simp add: built_def idle_host_def call_setZ_def new_Vector3_def)

section \<open>The moon\<close>

lemma step_moon_position:
  "moon_position (the_scene (step h s ev)) = moon_position (the_scene s)"
  by (cases ev) (simp_all add: animate_scene moveCamera_scene)

lemma run_moon_position:
  "moon_position (the_scene (run h evs s)) = moon_position (the_scene s)"
  unfolding run_def by (induction evs arbitrary: s) (simp_all add: step_moon_position)

text \<open>
  Claim C7. Line 123 assigns 30 to the property \<^verbatim>\<open>setZ\<close> of the position of the moon:
  the assignment changes no coordinate (a call would have set \<open>z\<close>), so start-up leaves
  the moon at (2, 0, 0), with a number where the method was. No invocation of \<^verbatim>\<open>animate\<close>
  or of \<^verbatim>\<open>moveCamera\<close>, and no sequence of frames and scroll events, changes the position
  of the moon.
\<close>

theorem moon_position_is_fixed:
  "map_option (\<lambda>s. moon_position (the_scene s)) (build_scene h w) =
     Some \<lparr>vec_x = 2, vec_y = 0, vec_z = 0, setZ_property = Own_value 30\<rparr> \<and>
   map_option (\<lambda>s. moon_position (the_scene s)) (startup h w) =
     Some \<lparr>vec_x = 2, vec_y = 0, vec_z = 0, setZ_property = Own_value 30\<rparr> \<and>
   vec_x (assign_setZ v a) = vec_x v \<and> vec_y (assign_setZ v a) = vec_y v \<and>
   vec_z (assign_setZ v a) = vec_z v \<and>
   map_option vec_z (call_setZ new_Vector3 a) = Some a \<and>
   moon_position (the_scene (fst (animate h s))) = moon_position (the_scene s) \<and>
   moon_position (the_scene (moveCamera t s)) = moon_position (the_scene s) \<and>
   moon_position (the_scene (run h evs s)) = moon_position (the_scene s)"
proof -
  have b: "map_option (\<lambda>s. moon_position (the_scene s)) (build_scene h w) =
     Some \<lparr>vec_x = 2, vec_y = 0, vec_z = 0, setZ_property = Own_value 30\<rparr>"
    by (simp add: build_scene_def call_setZ_def new_Vector3_def assign_setZ_def setX_def Let_def)
  then have "map_option (\<lambda>s. moon_position (the_scene s)) (startup h w) =
     Some \<lparr>vec_x = 2, vec_y = 0, vec_z = 0, setZ_property = Own_value 30\<rparr>"
    by (auto simp: startup_def animate_scene)
  moreover have "map_option vec_z (call_setZ new_Vector3 a) = Some a"
    by (simp add: call_setZ_def new_Vector3_def)
  ultimately show ?thesis
    using b by (simp add: assign_setZ_def animate_scene moveCamera_scene run_moon_position)
qed

section \<open>The update step\<close>

text \<open>
  Claim C8. An invocation of \<^verbatim>\<open>animate\<close> completes without a value. It adds 0.01 to each
  of the three angles of the torus, whatever the state; it calls \<^verbatim>\<open>controls.update()\<close> once
  and then \<^verbatim>\<open>renderer.render\<close> once, with the scene as it is after the three additions and
  the camera as the controls have left it. The order shows when a call throws: if the
  update of the controls throws, the three additions are done and nothing has been
  rendered; if the renderer throws, the controls have been updated as well.
\<close>

theorem animate_does_in_order:
  "snd (animate h s) = Normal \<and>
   the_scene (fst (animate h s)) =
     (the_scene s)\<lparr>torus_rotation :=
        \<lparr>rot_x = fadd (rot_x (torus_rotation (the_scene s))) (fl (1 / 100)),
         rot_y = fadd (rot_y (torus_rotation (the_scene s))) (fl (1 / 100)),
         rot_z = fadd (rot_z (torus_rotation (the_scene s))) (fl (1 / 100))\<rparr>\<rparr> \<and>
   camera_position (fst (animate h s)) =
     snd (controls_update h (external s) (camera_position s)) \<and>
   external (fst (animate h s)) =
     renderer_render h (fst (controls_update h (external s) (camera_position s)))
       (the_scene (fst (animate h s))) (camera_position (fst (animate h s))) \<and>
   calls (fst (animate h s)) =
     calls s @ [Call_requestAnimationFrame, Call_controls_update,
       Call_render (the_scene (fst (animate h s))) (camera_position (fst (animate h s)))] \<and>
   run_stmts (\<lambda>st. st = Controls_update) h animate_body s =
     (s\<lparr>the_scene := the_scene (fst (animate h s)),
        frame_requests := Suc (frame_requests s),
        calls := calls s @ [Call_requestAnimationFrame]\<rparr>, Throw) \<and>
   run_stmts (\<lambda>st. st = Render) h animate_body s =
     (s\<lparr>the_scene := the_scene (fst (animate h s)),
        camera_position := camera_position (fst (animate h s)),
        external := fst (controls_update h (external s) (camera_position s)),
        frame_requests := Suc (frame_requests s),
        calls := calls s @ [Call_requestAnimationFrame, Call_controls_update]\<rparr>, Throw)"
proof -
  have "run_stmts (\<lambda>st. st = Controls_update) h animate_body s =
     (s\<lparr>the_scene := the_scene (fst (animate h s)),
        frame_requests := Suc (frame_requests s),
        calls := calls s @ [Call_requestAnimationFrame]\<rparr>, Throw)"
    by (simp add: animate_scene) (simp add: animate_body_def set_torus_def)
  moreover have "run_stmts (\<lambda>st. st = Render) h animate_body s =
     (s\<lparr>the_scene := the_scene (fst (animate h s)),
        camera_position := camera_position (fst (animate h s)),
        external := fst (controls_update h (external s) (camera_position s)),
        frame_requests := Suc (frame_requests s),
        calls := calls s @ [Call_requestAnimationFrame, Call_controls_update]\<rparr>, Throw)"
    by (simp add: animate_scene animate_camera) (simp add: animate_body_def set_torus_def split_def)
  ultimately show ?thesis
    using animate_completion [of h s] animate_scene [of h s] animate_camera [of h s]
      animate_external [of h s] animate_calls [of h s]
    by blast
qed

section \<open>Frames and scroll events together\<close>

lemma run_moon_rotation:
  "moon_rotation (the_scene s) = moon_rotation (the_scene s') \<Longrightarrow>
     moon_rotation (the_scene (run h evs s)) =
     moon_rotation (the_scene (run h' (filter is_Scroll evs) s'))"
proof (induction evs arbitrary: s s')
  case Nil
  then show ?case by (simp add: run_def)
next
  case (Cons ev evs)
  show ?case
  proof (cases ev)
    case Frame
    have "moon_rotation (the_scene (step h s Frame)) = moon_rotation (the_scene s')"
      using Cons.prems by (simp add: animate_scene)
    from Cons.IH [OF this] show ?thesis using Frame by (simp add: run_def)
  next
    case (Scroll t)
    have "moon_rotation (the_scene (step h s (Scroll t))) =
        moon_rotation (the_scene (step h' s' (Scroll t)))"
      using Cons.prems by (simp add: moveCamera_scene)
    from Cons.IH [OF this] show ?thesis using Scroll by (simp add: run_def)
  qed
qed

lemma run_torus_rotation:
  "torus_rotation (the_scene s) = torus_rotation (the_scene s') \<Longrightarrow> 0 < frame_requests s \<Longrightarrow>
     torus_rotation (the_scene (run h evs s)) =
     torus_rotation (the_scene (frames h' (length (filter is_Frame evs)) s'))"
proof (induction evs arbitrary: s s')
  case Nil
  then show ?case by (simp add: run_def)
next
  case (Cons ev evs)
  show ?case
  proof (cases ev)
    case Frame
    have 1: "torus_rotation (the_scene (step h s Frame)) =
        torus_rotation (the_scene (fst (animate h' s')))"
      using Cons.prems by (simp add: animate_scene)
    have 2: "0 < frame_requests (step h s Frame)"
      using Cons.prems by (simp add: animate_requests)
    from Cons.IH [OF 1 2] show ?thesis using Frame by (simp add: run_def)
  next
    case (Scroll t)
    have 1: "torus_rotation (the_scene (step h s (Scroll t))) = torus_rotation (the_scene s')"
      using Cons.prems by (simp add: moveCamera_scene)
    have 2: "0 < frame_requests (step h s (Scroll t))"
      using Cons.prems by (simp add: moveCamera_rest)
    from Cons.IH [OF 1 2] show ?thesis using Scroll by (simp add: run_def)
  qed
qed

lemma run_camera_y:
  assumes "\<forall>w p. vec_y (snd (controls_update h w p)) = vec_y p"
  shows "vec_y (camera_position s) = vec_y (camera_position s') \<Longrightarrow>
     vec_y (camera_position (run h evs s)) =
     vec_y (camera_position (run h' (filter is_Scroll evs) s'))"
proof (induction evs arbitrary: s s')
  case Nil
  then show ?case by (simp add: run_def)
next
  case (Cons ev evs)
  show ?case
  proof (cases ev)
    case Frame
    have "vec_y (camera_position (step h s Frame)) = vec_y (camera_position s')"
      using Cons.prems assms by (simp add: animate_camera)
    from Cons.IH [OF this] show ?thesis using Frame by (simp add: run_def)
  next
    case (Scroll t)
    have "vec_y (camera_position (step h s (Scroll t))) =
        vec_y (camera_position (step h' s' (Scroll t)))"
      by (simp add: moveCamera_camera)
    from Cons.IH [OF this] show ?thesis using Scroll by (simp add: run_def)
  qed
qed

text \<open>
  Claim C10, as amended. No statement of \<^verbatim>\<open>animate\<close> writes the rotation of the moon,
  and \<^verbatim>\<open>animate\<close> writes the position of the camera only through \<^verbatim>\<open>controls.update()\<close>;
  \<^verbatim>\<open>moveCamera\<close> does not write the rotation of the torus. So for every sequence of
  frames and scroll events, on every host: the rotation of the moon is the one that the
  scroll events alone produce; the rotation of the torus, in a state with a pending frame
  request (any state after start-up), is the one that as many invocations of \<^verbatim>\<open>animate\<close>
  as there are frames produce; and the vertical position of the camera is the one the scroll
  events alone produce, provided that the update of the controls leaves the vertical
  position of the camera as it is.
\<close>

theorem frames_and_scrolls_are_independent:
  "moon_rotation (the_scene (fst (animate h s))) = moon_rotation (the_scene s) \<and>
   torus_rotation (the_scene (moveCamera t s)) = torus_rotation (the_scene s) \<and>
   camera_position (fst (animate h s)) = snd (controls_update h (external s) (camera_position s)) \<and>
   moon_rotation (the_scene (run h evs s)) =
     moon_rotation (the_scene (run h' (filter is_Scroll evs) s)) \<and>
   (0 < frame_requests s \<longrightarrow>
      torus_rotation (the_scene (run h evs s)) =
      torus_rotation (the_scene (frames h' (length (filter is_Frame evs)) s))) \<and>
   ((\<forall>w p. vec_y (snd (controls_update h w p)) = vec_y p) \<longrightarrow>
      vec_y (camera_position (run h evs s)) =
      vec_y (camera_position (run h' (filter is_Scroll evs) s)))"
  using run_moon_rotation [of s s h evs h'] run_torus_rotation [of s s h evs h']
    run_camera_y [of h s s evs h']
  by (simp add: animate_scene moveCamera_scene animate_camera)

theorem frames_and_scrolls_are_independent_witness:
  "vec_y (camera_position
     (run idle_host [Scroll (- 100), Frame, Frame] (fst (animate idle_host built)))) =
     5764607523034235 / 2 ^ 58 \<and>
   torus_rotation (the_scene
     (run idle_host [Frame, Scroll (- 100), Frame] (fst (animate idle_host built)))) =
   torus_rotation (the_scene (frames idle_host 2 (fst (animate idle_host built))))"
proof -
  have 1: "0 < frame_requests (fst (animate idle_host built))"
    by (simp add: animate_requests)
  have 2: "\<forall>w p. vec_y (snd (controls_update idle_host w p)) = vec_y p"
    by (simp add: idle_host_def)
  have 3: "length (filter is_Frame [Frame, Scroll (- 100), Frame]) = 2" by simp
  have 4: "vec_y (camera_position
      (run idle_host (filter is_Scroll [Scroll (- 100), Frame, Frame]) (fst (animate idle_host built)))) =
      5764607523034235 / 2 ^ 58"
    by (simp add: run_def moveCamera_camera scroll_100)
  have a: "torus_rotation (the_scene
      (run idle_host [Frame, Scroll (- 100), Frame] (fst (animate idle_host built)))) =
      torus_rotation (the_scene (frames idle_host
        (length (filter is_Frame [Frame, Scroll (- 100), Frame])) (fst (animate idle_host built))))"
    using 1 frames_and_scrolls_are_independent [of idle_host "fst (animate idle_host built)" 0
        "[Frame, Scroll (- 100), Frame]" idle_host]
    by blast
  have b: "vec_y (camera_position
      (run idle_host [Scroll (- 100), Frame, Frame] (fst (animate idle_host built)))) =
      vec_y (camera_position
      (run idle_host (filter is_Scroll [Scroll (- 100), Frame, Frame]) (fst (animate idle_host built))))"
    using 2 frames_and_scrolls_are_independent [of idle_host "fst (animate idle_host built)" 0
        "[Scroll (- 100), Frame, Frame]" idle_host]
    by blast
  from a have a': "torus_rotation (the_scene
      (run idle_host [Frame, Scroll (- 100), Frame] (fst (animate idle_host built)))) =
      torus_rotation (the_scene (frames idle_host 2 (fst (animate idle_host built))))"
    by (simp only: 3)
  from b have b': "vec_y (camera_position
      (run idle_host [Scroll (- 100), Frame, Frame] (fst (animate idle_host built)))) =
      5764607523034235 / 2 ^ 58"
    by (simp only: 4)
  show ?thesis using a' b' by blast
qed

text \<open>
  Against claim C10 as it stands: on a host whose controls move the camera, the vertical
  position after one invocation of \<^verbatim>\<open>animate\<close> is not the one the last scroll event set.
\<close>

theorem controls_move_camera_counterexample:
  "vec_y (camera_position (moveCamera (- 100) built)) = 5764607523034235 / 2 ^ 58 \<and>
   vec_y (camera_position (fst (animate dragging_host (moveCamera (- 100) built)))) =
     2296835809958953 / 2 ^ 51 \<and>
   vec_y (camera_position (fst (animate dragging_host (moveCamera (- 100) built)))) \<noteq>
     vec_y (camera_position (moveCamera (- 100) built))"
  by (simp add: animate_camera moveCamera_camera scroll_100 dragging_host_def lifted_once)

section \<open>The rotations\<close>

text \<open>
  Claim C1, as amended. From a torus rotation of (0, 0, 0), \<open>n\<close> invocations of
  \<^verbatim>\<open>animate\<close> leave on each of the three axes the same number: what \<open>n\<close> rounded additions
  of the literal 0.01 make of 0, with no normalisation and no wrap-around. That number is
  within \<open>n / 2 ^ 52\<close> of \<open>n / 100\<close> for the first 100 invocations and within
  \<open>n / 2 ^ 39\<close> for the first million. After exactly 100 invocations it is
  \<open>1 + 3 / 2 ^ 52\<close>, the binary64 number 1.0000000000000007.
\<close>

theorem torus_rotation_after_frames:
  assumes "torus_rotation (the_scene s) = new_Euler"
  shows "torus_rotation (the_scene (frames h n s)) =
      \<lparr>rot_x = repeated_sum (fl (1 / 100)) n, rot_y = repeated_sum (fl (1 / 100)) n,
       rot_z = repeated_sum (fl (1 / 100)) n\<rparr> \<and>
    (n \<le> 100 \<longrightarrow> \<bar>repeated_sum (fl (1 / 100)) n - of_nat n / 100\<bar> \<le> of_nat n / 2 ^ 52) \<and>
    (n \<le> 1000000 \<longrightarrow> \<bar>repeated_sum (fl (1 / 100)) n - of_nat n / 100\<bar> \<le> of_nat n / 2 ^ 39) \<and>
    repeated_sum (fl (1 / 100)) 100 = 1 + 3 / 2 ^ 52"
proof -
  have "torus_rotation (the_scene (frames h n s)) =
      \<lparr>rot_x = repeated_sum (fl (1 / 100)) n, rot_y = repeated_sum (fl (1 / 100)) n,
       rot_z = repeated_sum (fl (1 / 100)) n\<rparr>"
    using assms by (simp add: frames_torus new_Euler_def repeated_sum_def)
  then show ?thesis
    using torus_near_100 [of n] torus_near_million [of n] torus_sum_100
    by (simp only: literal_0_01) blast
qed

theorem torus_rotation_after_frames_witness:
  "rot_x (torus_rotation (the_scene (frames idle_host 100 built))) = 1 + 3 / 2 ^ 52 \<and>
   \<bar>rot_x (torus_rotation (the_scene (frames idle_host 100 built))) - 1\<bar> \<le> 100 / 2 ^ 52"
proof -
  have "torus_rotation (the_scene built) = new_Euler" by (simp add: built_def)
  from torus_rotation_after_frames [OF this, of idle_host 100] show ?thesis by simp
qed

text \<open>
  Against claim C1 as it stands: after 100 invocations the angle is not 1, which is both
  the rational \<open>100 * (1 / 100)\<close> and the value of \<^verbatim>\<open>100 * 0.01\<close>; after 6 invocations it
  is 0.060000000000000005, the binary64 number next above 0.06.
\<close>

theorem torus_not_exact_counterexample:
  "rot_x (torus_rotation (the_scene (frames idle_host 100 built))) = 1 + 3 / 2 ^ 52 \<and>
   rot_x (torus_rotation (the_scene (frames idle_host 100 built))) \<noteq> 100 * (1 / 100) \<and>
   rot_x (torus_rotation (the_scene (frames idle_host 100 built))) \<noteq> 100 * fl (1 / 100) \<and>
   rot_x (torus_rotation (the_scene (frames idle_host 100 built))) \<noteq> fmul 100 (fl (1 / 100)) \<and>
   rot_x (torus_rotation (the_scene (frames idle_host 6 built))) = 8646911284551353 / 2 ^ 57 \<and>
   rot_x (torus_rotation (the_scene (frames idle_host 6 built))) \<noteq> 6 * (1 / 100) \<and>
   rot_x (torus_rotation (the_scene (frames idle_host 6 built))) \<noteq> fl (6 / 100)"
proof -
  have 0: "rot_x (torus_rotation (the_scene built)) = 0" by (simp add: built_def new_Euler_def)
  have a: "rot_x (torus_rotation (the_scene (frames idle_host 100 built))) = 1 + 3 / 2 ^ 52"
    using torus_sum_100 by (simp add: frames_torus 0 literal_0_01 repeated_sum_def)
  have b: "rot_x (torus_rotation (the_scene (frames idle_host 6 built))) = 8646911284551353 / 2 ^ 57"
    using torus_sum_6 by (simp add: frames_torus 0 literal_0_01 repeated_sum_def)
  have c: "fmul 100 (fl (1 / 100)) = 1"
    by (simp add: fmul_def literal_0_01) (simp add: fl_eval floor_rat_numeral_div)
  have d: "fl (6 / 100) = 8646911284551352 / 2 ^ 57"
    by (simp add: fl_eval floor_rat_numeral_div)
  show ?thesis unfolding a b c d by (simp add: literal_0_01)
qed

text \<open>
  Claim C4, as amended. Two sequences of scroll events of the same length leave the same
  rotation of the moon, from the same state, whatever their offsets and on any two hosts.
  From a moon rotation of (0, 0, 0), that rotation is what as many rounded additions of
  0.05, 0.075 and 0.05 make of 0: within \<open>n / 2 ^ 40\<close> of \<open>n\<close> times 0.05 and 0.075 for
  up to 100000 events, and exactly (0.25, 0.375, 0.25) after 5 events.
\<close>

theorem moon_rotation_after_scrolls:
  "(length ts = length ts' \<longrightarrow>
      moon_rotation (the_scene (run h (map Scroll ts) s)) =
      moon_rotation (the_scene (run h' (map Scroll ts') s))) \<and>
   (moon_rotation (the_scene s) = new_Euler \<longrightarrow>
      moon_rotation (the_scene (run h (map Scroll ts) s)) =
        \<lparr>rot_x = repeated_sum (fl (5 / 100)) (length ts),
         rot_y = repeated_sum (fl (75 / 1000)) (length ts),
         rot_z = repeated_sum (fl (5 / 100)) (length ts)\<rparr>) \<and>
   (n \<le> 100000 \<longrightarrow>
      \<bar>repeated_sum (fl (5 / 100)) n - of_nat n * (5 / 100)\<bar> \<le> of_nat n / 2 ^ 40 \<and>
      \<bar>repeated_sum (fl (75 / 1000)) n - of_nat n * (75 / 1000)\<bar> \<le> of_nat n / 2 ^ 40) \<and>
   repeated_sum (fl (5 / 100)) 5 = 25 / 100 \<and>
   repeated_sum (fl (75 / 1000)) 5 = 375 / 1000"
proof -
  have a: "length ts = length ts' \<longrightarrow>
      moon_rotation (the_scene (run h (map Scroll ts) s)) =
      moon_rotation (the_scene (run h' (map Scroll ts') s))"
    by (simp add: scrolls_moon)
  have b: "moon_rotation (the_scene s) = new_Euler \<longrightarrow>
      moon_rotation (the_scene (run h (map Scroll ts) s)) =
        \<lparr>rot_x = repeated_sum (fl (5 / 100)) (length ts),
         rot_y = repeated_sum (fl (75 / 1000)) (length ts),
         rot_z = repeated_sum (fl (5 / 100)) (length ts)\<rparr>"
    by (simp add: scrolls_moon new_Euler_def repeated_sum_def)
  have c: "n \<le> 100000 \<longrightarrow>
      \<bar>repeated_sum (fl (5 / 100)) n - of_nat n * (5 / 100)\<bar> \<le> of_nat n / 2 ^ 40 \<and>
      \<bar>repeated_sum (fl (75 / 1000)) n - of_nat n * (75 / 1000)\<bar> \<le> of_nat n / 2 ^ 40"
    using moon_x_near [of n] moon_y_near [of n] by (simp add: literal_0_05 literal_0_075)
  have d: "repeated_sum (fl (5 / 100)) 5 = 25 / 100"
    using moon_sum_x_5 by (simp add: literal_0_05)
  have e: "repeated_sum (fl (75 / 1000)) 5 = 375 / 1000"
    using moon_sum_y_5 by (simp add: literal_0_075)
  show ?thesis using a b c d e by blast
qed

theorem moon_rotation_after_scrolls_witness:
  "moon_rotation (the_scene (run idle_host (map Scroll [0, - 100, - 250, - 300, - 10]) built)) =
     moon_rotation (the_scene (run idle_host (map Scroll [- 7, - 7, - 900, 0, - 1]) built)) \<and>
   moon_rotation (the_scene (run idle_host (map Scroll [0, - 100, - 250, - 300, - 10]) built)) =
     \<lparr>rot_x = 25 / 100, rot_y = 375 / 1000, rot_z = 25 / 100\<rparr> \<and>
   \<bar>repeated_sum (fl (5 / 100)) 10 - 10 * (5 / 100)\<bar> \<le> 10 / 2 ^ 40"
proof -
  have 1: "length [0, - 100, - 250, - 300, - 10 :: number] = length [- 7, - 7, - 900, 0, - 1 :: number]"
    by simp
  have 2: "moon_rotation (the_scene built) = new_Euler" by (simp add: built_def)
  have 3: "(10::nat) \<le> 100000" by simp
  have 4: "length [0, - 100, - 250, - 300, - 10 :: number] = 5" by simp
  note t = moon_rotation_after_scrolls [of "[0, - 100, - 250, - 300, - 10]" "[- 7, - 7, - 900, 0, - 1]"
      idle_host built idle_host 10]
  have a: "moon_rotation (the_scene (run idle_host (map Scroll [0, - 100, - 250, - 300, - 10]) built)) =
     moon_rotation (the_scene (run idle_host (map Scroll [- 7, - 7, - 900, 0, - 1]) built))"
    using t 1 by blast
  have "moon_rotation (the_scene (run idle_host (map Scroll [0, - 100, - 250, - 300, - 10]) built)) =
        \<lparr>rot_x = repeated_sum (fl (5 / 100)) (length [0, - 100, - 250, - 300, - 10 :: number]),
         rot_y = repeated_sum (fl (75 / 1000)) (length [0, - 100, - 250, - 300, - 10 :: number]),
         rot_z = repeated_sum (fl (5 / 100)) (length [0, - 100, - 250, - 300, - 10 :: number])\<rparr>"
    using t 2 by blast
  moreover have "repeated_sum (fl (5 / 100)) 5 = 25 / 100" "repeated_sum (fl (75 / 1000)) 5 = 375 / 1000"
    using t by blast+
  ultimately have b: "moon_rotation (the_scene (run idle_host (map Scroll [0, - 100, - 250, - 300, - 10]) built)) =
     \<lparr>rot_x = 25 / 100, rot_y = 375 / 1000, rot_z = 25 / 100\<rparr>"
    by (simp only: 4)
  have c: "\<bar>repeated_sum (fl (5 / 100)) 10 - 10 * (5 / 100)\<bar> \<le> 10 / 2 ^ 40"
    using t 3 by simp
  show ?thesis using a b c by blast
qed

text \<open>
  Against claim C4 as it stands: after 10 scroll events the first angle of the moon is
  \<open>1 / 2 - 1 / 2 ^ 54\<close>, the binary64 number 0.49999999999999994, and not 10 times 0.05.
\<close>

theorem moon_not_exact_counterexample:
  "rot_x (moon_rotation (the_scene
      (run idle_host (map Scroll [0, 0, 0, 0, 0, 0, 0, 0, 0, 0]) built))) = 1 / 2 - 1 / 2 ^ 54 \<and>
   rot_x (moon_rotation (the_scene
      (run idle_host (map Scroll [0, 0, 0, 0, 0, 0, 0, 0, 0, 0]) built))) \<noteq> 10 * (5 / 100) \<and>
   rot_x (moon_rotation (the_scene
      (run idle_host (map Scroll [0, 0, 0, 0, 0, 0, 0, 0, 0, 0]) built))) \<noteq> 10 * fl (5 / 100) \<and>
   rot_x (moon_rotation (the_scene
      (run idle_host (map Scroll [0, 0, 0, 0, 0, 0, 0, 0, 0, 0]) built))) \<noteq> fmul 10 (fl (5 / 100))"
proof -
  have 0: "rot_x (moon_rotation (the_scene built)) = 0" by (simp add: built_def new_Euler_def)
  have l: "length [0, 0, 0, 0, 0, 0, 0, 0, 0, 0 :: number] = 10" by simp
  have "rot_x (moon_rotation (the_scene
      (run idle_host (map Scroll [0, 0, 0, 0, 0, 0, 0, 0, 0, 0]) built))) =
      repeated_sum (fl (5 / 100)) 10"
    unfolding scrolls_moon l by (simp add: 0 repeated_sum_def)
  then have a: "rot_x (moon_rotation (the_scene
      (run idle_host (map Scroll [0, 0, 0, 0, 0, 0, 0, 0, 0, 0]) built))) = 1 / 2 - 1 / 2 ^ 54"
    using moon_sum_x_10 by (simp add: literal_0_05)
  have c: "fmul 10 (fl (1 / 20)) = 1 / 2"
    by (simp add: fmul_def literal_0_05) (simp add: fl_eval floor_rat_numeral_div)
  show ?thesis unfolding a using c by (simp add: literal_0_05)
qed

text \<open>
  Claim C9, as amended. An invocation of \<^verbatim>\<open>animate\<close> strictly increases each angle of
  the torus that is below \<open>2 ^ 47\<close> in absolute value, it decreases no angle that is
  a binary64 number, and it leaves every binary64 angle from \<open>2 ^ 47\<close> on as it is;
  \<^verbatim>\<open>moveCamera\<close> leaves the rotation of the torus as it is, and nothing
  normalises it. From a rotation of (0, 0, 0) the three angles stay below \<open>2 ^ 47\<close> for the
  first \<open>7 * 10 ^ 15\<close> invocations at least, so each of these invocations strictly
  increases them.
\<close>

theorem torus_angles_increase:
  "(\<bar>rot_x (torus_rotation (the_scene s))\<bar> < 2 ^ 47 \<longrightarrow>
      rot_x (torus_rotation (the_scene s)) < rot_x (torus_rotation (the_scene (fst (animate h s))))) \<and>
   (\<bar>rot_y (torus_rotation (the_scene s))\<bar> < 2 ^ 47 \<longrightarrow>
      rot_y (torus_rotation (the_scene s)) < rot_y (torus_rotation (the_scene (fst (animate h s))))) \<and>
   (\<bar>rot_z (torus_rotation (the_scene s))\<bar> < 2 ^ 47 \<longrightarrow>
      rot_z (torus_rotation (the_scene s)) < rot_z (torus_rotation (the_scene (fst (animate h s))))) \<and>
   (binary64 (rot_x (torus_rotation (the_scene s))) \<longrightarrow>
      rot_x (torus_rotation (the_scene s)) \<le> rot_x (torus_rotation (the_scene (fst (animate h s))))) \<and>
   (binary64 (rot_y (torus_rotation (the_scene s))) \<longrightarrow>
      rot_y (torus_rotation (the_scene s)) \<le> rot_y (torus_rotation (the_scene (fst (animate h s))))) \<and>
   (binary64 (rot_z (torus_rotation (the_scene s))) \<longrightarrow>
      rot_z (torus_rotation (the_scene s)) \<le> rot_z (torus_rotation (the_scene (fst (animate h s))))) \<and>
   (binary64 (rot_x (torus_rotation (the_scene s))) \<and> 2 ^ 47 \<le> rot_x (torus_rotation (the_scene s)) \<longrightarrow>
      rot_x (torus_rotation (the_scene (fst (animate h s)))) = rot_x (torus_rotation (the_scene s))) \<and>
   (binary64 (rot_y (torus_rotation (the_scene s))) \<and> 2 ^ 47 \<le> rot_y (torus_rotation (the_scene s)) \<longrightarrow>
      rot_y (torus_rotation (the_scene (fst (animate h s)))) = rot_y (torus_rotation (the_scene s))) \<and>
   (binary64 (rot_z (torus_rotation (the_scene s))) \<and> 2 ^ 47 \<le> rot_z (torus_rotation (the_scene s)) \<longrightarrow>
      rot_z (torus_rotation (the_scene (fst (animate h s)))) = rot_z (torus_rotation (the_scene s))) \<and>
   torus_rotation (the_scene (moveCamera t s)) = torus_rotation (the_scene s) \<and>
   (torus_rotation (the_scene s) = new_Euler \<and> n \<le> 7000000000000000 \<longrightarrow>
      \<bar>rot_x (torus_rotation (the_scene (frames h n s)))\<bar> < 2 ^ 47 \<and>
      \<bar>rot_y (torus_rotation (the_scene (frames h n s)))\<bar> < 2 ^ 47 \<and>
      \<bar>rot_z (torus_rotation (the_scene (frames h n s)))\<bar> < 2 ^ 47 \<and>
      rot_x (torus_rotation (the_scene (frames h n s))) <
        rot_x (torus_rotation (the_scene (frames h (Suc n) s))) \<and>
      rot_y (torus_rotation (the_scene (frames h n s))) <
        rot_y (torus_rotation (the_scene (frames h (Suc n) s))) \<and>
      rot_z (torus_rotation (the_scene (frames h n s))) <
        rot_z (torus_rotation (the_scene (frames h (Suc n) s))))"
proof -
  have c: "0 \<le> fl (1 / 100)" by (simp add: literal_0_01)
  have a: "torus_rotation (the_scene s) = new_Euler \<and> n \<le> 7000000000000000 \<longrightarrow>
      \<bar>rot_x (torus_rotation (the_scene (frames h n s)))\<bar> < 2 ^ 47 \<and>
      \<bar>rot_y (torus_rotation (the_scene (frames h n s)))\<bar> < 2 ^ 47 \<and>
      \<bar>rot_z (torus_rotation (the_scene (frames h n s)))\<bar> < 2 ^ 47 \<and>
      rot_x (torus_rotation (the_scene (frames h n s))) <
        rot_x (torus_rotation (the_scene (frames h (Suc n) s))) \<and>
      rot_y (torus_rotation (the_scene (frames h n s))) <
        rot_y (torus_rotation (the_scene (frames h (Suc n) s))) \<and>
      rot_z (torus_rotation (the_scene (frames h n s))) <
        rot_z (torus_rotation (the_scene (frames h (Suc n) s)))"
  proof
    assume s: "torus_rotation (the_scene s) = new_Euler \<and> n \<le> 7000000000000000"
    define v where "v = repeated_sum (fl (1 / 100)) n"
    have n: "torus_rotation (the_scene (frames h n s)) = \<lparr>rot_x = v, rot_y = v, rot_z = v\<rparr>"
      using s by (simp add: frames_torus new_Euler_def repeated_sum_def v_def)
    have "torus_rotation (the_scene (frames h (Suc n) s)) =
        \<lparr>rot_x = repeated_sum (fl (1 / 100)) (Suc n), rot_y = repeated_sum (fl (1 / 100)) (Suc n),
         rot_z = repeated_sum (fl (1 / 100)) (Suc n)\<rparr>"
      using s unfolding frames_torus by (simp add: new_Euler_def repeated_sum_def)
    then have n1: "torus_rotation (the_scene (frames h (Suc n) s)) =
        \<lparr>rot_x = fadd v (fl (1 / 100)), rot_y = fadd v (fl (1 / 100)),
         rot_z = fadd v (fl (1 / 100))\<rparr>"
      by (simp only: repeated_sum_Suc v_def)
    have b: "\<bar>v\<bar> < 2 ^ 47" using s torus_below_stall [of n] by (simp add: v_def literal_0_01)
    then have "v < fadd v (fl (1 / 100))" by (rule fadd_0_01_strict)
    with b show "\<bar>rot_x (torus_rotation (the_scene (frames h n s)))\<bar> < 2 ^ 47 \<and>
      \<bar>rot_y (torus_rotation (the_scene (frames h n s)))\<bar> < 2 ^ 47 \<and>
      \<bar>rot_z (torus_rotation (the_scene (frames h n s)))\<bar> < 2 ^ 47 \<and>
      rot_x (torus_rotation (the_scene (frames h n s))) <
        rot_x (torus_rotation (the_scene (frames h (Suc n) s))) \<and>
      rot_y (torus_rotation (the_scene (frames h n s))) <
        rot_y (torus_rotation (the_scene (frames h (Suc n) s))) \<and>
      rot_z (torus_rotation (the_scene (frames h n s))) <
        rot_z (torus_rotation (the_scene (frames h (Suc n) s)))"
      unfolding n n1 by simp
  qed
  have d: "binary64 x \<longrightarrow> x \<le> fadd x (fl (1 / 100))" for x
    using c fadd_never_decreases [of x "fl (1 / 100)"] by (simp add: binary64_def)
  have e: "\<bar>x\<bar> < 2 ^ 47 \<longrightarrow> x < fadd x (fl (1 / 100))" for x
    using fadd_0_01_strict [of x] by blast
  have k: "binary64 x \<and> 2 ^ 47 \<le> x \<longrightarrow> fadd x (fl (1 / 100)) = x" for x
    using fadd_0_01_absorbed [of x] by (simp add: binary64_def)
  have f: "torus_rotation (the_scene (fst (animate h s))) =
      \<lparr>rot_x = fadd (rot_x (torus_rotation (the_scene s))) (fl (1 / 100)),
       rot_y = fadd (rot_y (torus_rotation (the_scene s))) (fl (1 / 100)),
       rot_z = fadd (rot_z (torus_rotation (the_scene s))) (fl (1 / 100))\<rparr>"
    by (simp add: animate_scene)
  have g: "torus_rotation (the_scene (moveCamera t s)) = torus_rotation (the_scene s)"
    by (simp add: moveCamera_scene)
  show ?thesis unfolding f g using a d e k by simp
qed

theorem torus_angles_increase_witness:
  "rot_x (torus_rotation (the_scene built)) <
     rot_x (torus_rotation (the_scene (fst (animate idle_host built)))) \<and>
   \<bar>rot_x (torus_rotation (the_scene (frames idle_host 100 built)))\<bar> < 2 ^ 47 \<and>
   rot_x (torus_rotation (the_scene (frames idle_host 100 built))) <
     rot_x (torus_rotation (the_scene (frames idle_host (Suc 100) built)))"
proof -
  have 1: "\<bar>rot_x (torus_rotation (the_scene built))\<bar> < 2 ^ 47" by (simp add: built_def new_Euler_def)
  have 2: "torus_rotation (the_scene built) = new_Euler \<and> (100::nat) \<le> 7000000000000000"
    by (simp add: built_def)
  show ?thesis using torus_angles_increase [of built idle_host 0 100] 1 2 by blast
qed

text \<open>
  Against claim C9 as it stands: an angle of \<open>2 ^ 47\<close> is not increased. Half the distance
  to the next binary64 number is \<open>2 ^ - 6\<close> there, more than 0.01, and the sum rounds
  back to \<open>2 ^ 47\<close>.
\<close>

theorem torus_stalls_counterexample:
  "rot_x (torus_rotation (the_scene (fst (animate idle_host
      (built\<lparr>the_scene := (the_scene built)\<lparr>torus_rotation :=
         \<lparr>rot_x = 2 ^ 47, rot_y = 2 ^ 47, rot_z = 2 ^ 47\<rparr>\<rparr>\<rparr>))))) = 2 ^ 47"
  using absorbed by (simp add: animate_scene literal_0_01)

end
